theory Spec2Isabelle
  imports Main "HOL-Library.Char_ord" "HOL-Library.List_Lexorder" "HOL-Library.Multiset"
    "HOL-Library.Sublist"
begin

section \<open>Errors\<close>

text \<open>
  The exceptions that can leave the functions of \<^verbatim>\<open>import_refactor_helper.py\<close>:
  \<^verbatim>\<open>open\<close> on a path that cannot be read raises \<^verbatim>\<open>IOError\<close>, \<^verbatim>\<open>ast.parse\<close> on a source that
  is not valid Python raises \<^verbatim>\<open>SyntaxError\<close>, \<^verbatim>\<open>os.path.relpath\<close> with the start \<^verbatim>\<open>None\<close>
  raises \<^verbatim>\<open>AttributeError\<close>. No function of the module catches any of them.
  \<open>PatternNotModelled\<close> is not an exception of the source: it marks a module name holding
  a character of the pattern language of \<^verbatim>\<open>re\<close> other than the dot, or a replacement name
  holding a backslash, where what \<^verbatim>\<open>re.compile\<close> builds depends on the pattern the name
  happens to spell. The model stops there.
\<close>

datatype error = IOError | SyntaxError | AttributeError | PatternNotModelled

section \<open>The patterns of \<^verbatim>\<open>make_import_regexes\<close>\<close>

text \<open>
  \<^verbatim>\<open>IMPORT_FROM_PATTERN_TEMPLATE = "from {}(.* import .+)"\<close> and
  \<^verbatim>\<open>IMPORT_PATTERN_TEMPLATE = "import {}(.*)"\<close>. The module name is pasted into the
  template unescaped, so every dot of the name is the pattern \<^verbatim>\<open>.\<close>, which matches any
  character but the newline (the patterns are compiled without flags); every other
  character of a dotted name stands for itself.
\<close>

abbreviation nl :: char where
  "nl \<equiv> CHR 0x0A"

datatype atom = Lit char | AnyChar

fun atom_matches :: "atom \<Rightarrow> char \<Rightarrow> bool" where
  "atom_matches (Lit a) c = (c = a)"
| "atom_matches AnyChar c = (c \<noteq> nl)"

text \<open>The characters with a meaning in a pattern: \<^verbatim>\<open>^ $ * + ? { } [ ] \ | ( )\<close> and the dot.\<close>

definition re_special :: "char list" where
  "re_special = [CHR 0x5E, CHR 0x24, CHR 0x2A, CHR 0x2B, CHR 0x3F, CHR 0x7B, CHR 0x7D,
                 CHR 0x5B, CHR 0x5D, CHR 0x5C, CHR 0x7C, CHR 0x28, CHR 0x29]"

fun compile_name :: "string \<Rightarrow> error + atom list" where
  "compile_name [] = Inr []"
| "compile_name (c # cs) =
     (if c \<in> set re_special then Inl PatternNotModelled
      else case compile_name cs of
             Inl e \<Rightarrow> Inl e
           | Inr as \<Rightarrow> Inr ((if c = CHR ''.'' then AnyChar else Lit c) # as))"

text \<open>
  A compiled pattern is one of the two templates around the atoms of the name.
\<close>

datatype regex = ImportRe "atom list" | ImportFromRe "atom list"

definition make_import_regexes :: "string \<Rightarrow> error + regex \<times> regex" where
  "make_import_regexes module_name =
     (case compile_name module_name of
        Inl e \<Rightarrow> Inl e
      | Inr as \<Rightarrow> Inr (ImportRe as, ImportFromRe as))"

text \<open>
  Matching a run of one-character atoms at the head of a string gives the rest of the
  string behind them.
\<close>

fun match_atoms :: "atom list \<Rightarrow> string \<Rightarrow> string option" where
  "match_atoms [] s = Some s"
| "match_atoms (a # as) [] = None"
| "match_atoms (a # as) (c # cs) = (if atom_matches a c then match_atoms as cs else None)"

text \<open>
  \<^verbatim>\<open>.* import .+\<close> on a text without newline: the text holds \<^verbatim>\<open>" import "\<close> with at
  least one character behind it.
\<close>

fun has_import_clause :: "string \<Rightarrow> bool" where
  "has_import_clause [] = False"
| "has_import_clause (c # cs) =
     ((case match_atoms (map Lit '' import '') (c # cs) of
         Some (d # ds) \<Rightarrow> True
       | _ \<Rightarrow> False)
      \<or> has_import_clause cs)"

text \<open>
  A match that starts at the head of the string: the text of group 1 and the rest of the
  string behind the match. In both templates the group ends with a greedy \<^verbatim>\<open>.*\<close> or
  \<^verbatim>\<open>.+\<close>, so the group runs to the end of the line; the atoms before it have one
  character each, so there is one way to match them.
\<close>

fun match_here :: "regex \<Rightarrow> string \<Rightarrow> (string \<times> string) option" where
  "match_here (ImportRe as) s =
     (case match_atoms (map Lit ''import '' @ as) s of
        None \<Rightarrow> None
      | Some rest \<Rightarrow> Some (takeWhile (\<lambda>c. c \<noteq> nl) rest, dropWhile (\<lambda>c. c \<noteq> nl) rest))"
| "match_here (ImportFromRe as) s =
     (case match_atoms (map Lit ''from '' @ as) s of
        None \<Rightarrow> None
      | Some rest \<Rightarrow>
          (if has_import_clause (takeWhile (\<lambda>c. c \<noteq> nl) rest)
           then Some (takeWhile (\<lambda>c. c \<noteq> nl) rest, dropWhile (\<lambda>c. c \<noteq> nl) rest)
           else None))"

text \<open>\<^verbatim>\<open>regex.search(source)\<close>, read for its truth value: a match at some position.\<close>

fun search :: "regex \<Rightarrow> string \<Rightarrow> bool" where
  "search r [] = (case match_here r [] of Some m \<Rightarrow> True | None \<Rightarrow> False)"
| "search r (c # cs) = (case match_here r (c # cs) of Some m \<Rightarrow> True | None \<Rightarrow> search r cs)"

lemma match_atoms_length:
  "match_atoms as s = Some rest \<Longrightarrow> length rest + length as = length s"
  by (induction as s rule: match_atoms.induct) (auto split: if_splits)

lemma match_here_shorter:
  "match_here r s = Some (g, rest) \<Longrightarrow> length rest < length s"
proof (cases r)
  case (ImportRe as)
  assume m: "match_here r s = Some (g, rest)"
  then obtain t where t: "match_atoms (map Lit ''import '' @ as) s = Some t"
    and r: "rest = dropWhile (\<lambda>c. c \<noteq> nl) t"
    using ImportRe by (auto split: option.splits)
  have "length rest \<le> length t" using r by (simp add: length_dropWhile_le)
  moreover have "length t < length s" using match_atoms_length [OF t] by simp
  ultimately show ?thesis by simp
next
  case (ImportFromRe as)
  assume m: "match_here r s = Some (g, rest)"
  then obtain t where t: "match_atoms (map Lit ''from '' @ as) s = Some t"
    and r: "rest = dropWhile (\<lambda>c. c \<noteq> nl) t"
    using ImportFromRe by (auto split: option.splits if_splits)
  have "length rest \<le> length t" using r by (simp add: length_dropWhile_le)
  moreover have "length t < length s" using match_atoms_length [OF t] by simp
  ultimately show ?thesis by simp
qed

text \<open>
  \<^verbatim>\<open>regex.finditer\<close> and \<^verbatim>\<open>regex.sub\<close> run over the same matches: from left to right,
  each search starting where the match before it ended. \<open>scan\<close> cuts the source into
  these matches (\<open>Inl\<close>, with the text of group 1) and the characters between them
  (\<open>Inr\<close>).
\<close>

function scan :: "regex \<Rightarrow> string \<Rightarrow> (string + char) list" where
  "scan r s =
     (case match_here r s of
        Some (g, rest) \<Rightarrow> Inl g # scan r rest
      | None \<Rightarrow> (case s of [] \<Rightarrow> [] | c # cs \<Rightarrow> Inr c # scan r cs))"
  by pat_completeness auto
termination
  by (relation "measure (\<lambda>(r, s). length s)") (auto dest: match_here_shorter)

declare scan.simps [simp del]

definition finditer :: "regex \<Rightarrow> string \<Rightarrow> string list" where
  "finditer r s = concat (map (case_sum (\<lambda>g. [g]) (\<lambda>c. [])) (scan r s))"

text \<open>
  The replacement templates are \<^verbatim>\<open>r"import {}\1"\<close> and \<^verbatim>\<open>r"from {}\1"\<close> around the new
  name: a text followed by group 1. A template is kept as the text before the group.
\<close>

definition make_repl :: "string \<Rightarrow> string \<Rightarrow> error + string" where
  "make_repl keyword new_module_name =
     (if CHR 0x5C \<in> set new_module_name then Inl PatternNotModelled
      else Inr (keyword @ '' '' @ new_module_name))"

definition expand :: "string \<Rightarrow> string \<Rightarrow> string" where
  "expand repl g = repl @ g"

definition sub :: "regex \<Rightarrow> string \<Rightarrow> string \<Rightarrow> string" where
  "sub r repl s = concat (map (case_sum (expand repl) (\<lambda>c. [c])) (scan r s))"

section \<open>The structural checker\<close>

text \<open>
  The syntax tree of \<^verbatim>\<open>ast.parse\<close>, as far as \<^verbatim>\<open>ImportCheckerVisitor\<close> tells nodes
  apart: an \<^verbatim>\<open>Import\<close> node with its aliases, an \<^verbatim>\<open>ImportFrom\<close> node with its module
  (\<^verbatim>\<open>None\<close> for \<^verbatim>\<open>from . import x\<close>), its aliases and its level (the number of leading
  dots), and any other node with its child nodes in order (\<^verbatim>\<open>Module\<close>, \<^verbatim>\<open>FunctionDef\<close>,
  \<^verbatim>\<open>If\<close>, an expression, ...).
\<close>

datatype import_alias = Alias (name: string) (asname: "string option")

datatype node =
    Import "import_alias list"
  | ImportFrom "string option" "import_alias list" nat
  | Other "node list"

text \<open>\<^verbatim>\<open>s.startswith(p)\<close>\<close>

definition startswith :: "string \<Rightarrow> string \<Rightarrow> bool" where
  "startswith s p = (take (length p) s = p)"

text \<open>
  \<^verbatim>\<open>NodeVisitor.visit\<close> calls \<^verbatim>\<open>visit_ImportFrom\<close> and \<^verbatim>\<open>visit_Import\<close> on the nodes of
  these classes and \<^verbatim>\<open>generic_visit\<close>, which visits every child, on all others. The
  visitor's state is its field \<^verbatim>\<open>import_found\<close>. \<^verbatim>\<open>visit_Import\<close> collects the names in
  a set before it asks whether any of them starts with the module name; a list gives
  the same answer.
\<close>

fun visit :: "string \<Rightarrow> node \<Rightarrow> bool \<Rightarrow> bool" where
  "visit module_name (ImportFrom None names level) import_found = import_found"
| "visit module_name (ImportFrom (Some m) names level) import_found =
     (if startswith m module_name then True else import_found)"
| "visit module_name (Import names) import_found =
     (if list_ex (\<lambda>a. startswith (name a) module_name) names then True else import_found)"
| "visit module_name (Other children) import_found =
     fold (visit module_name) children import_found"

section \<open>Files and the library functions around them\<close>

text \<open>
  The files under the walked root: their contents by path, the paths that cannot be
  opened for writing (a read-only file, say), and the paths opened for writing so far,
  in order. \<^verbatim>\<open>open(path, 'r')\<close> on a path that is not there raises \<^verbatim>\<open>IOError\<close>, and so
  does \<^verbatim>\<open>open(path, 'w')\<close> on a path that cannot be written, which leaves the file as
  it was; otherwise the write replaces the content. A run changes no permission.
\<close>

record filesystem =
  contents :: "string \<rightharpoonup> string"
  unwritable :: "string set"
  written :: "string list"

definition read_file :: "filesystem \<Rightarrow> string \<Rightarrow> error + string" where
  "read_file fs p = (case contents fs p of None \<Rightarrow> Inl IOError | Some s \<Rightarrow> Inr s)"

definition write_file :: "filesystem \<Rightarrow> string \<Rightarrow> string \<Rightarrow> error + filesystem" where
  "write_file fs p s =
     (if p \<in> unwritable fs then Inl IOError
      else Inr (fs\<lparr>contents := (contents fs)(p \<mapsto> s), written := written fs @ [p]\<rparr>))"

text \<open>
  The functions of Python's library that the module calls and that are not part of it:
  \<^verbatim>\<open>os.path.walk\<close> (the directories it hands to the callback, in order),
  \<^verbatim>\<open>glob.glob\<close> (the paths matching a pattern, in the order it returns them),
  \<^verbatim>\<open>os.path.relpath\<close> (applied as \<open>relpath env p start\<close>) and \<^verbatim>\<open>ast.parse\<close>. A run
  changes file contents only, never names, so the first two do not depend on the state.
\<close>

record os_env =
  walk_dirs :: "string \<Rightarrow> string list"
  glob_glob :: "string \<Rightarrow> string list"
  relpath :: "string \<Rightarrow> string \<Rightarrow> string"
  ast_parse :: "string \<Rightarrow> error + node"

text \<open>\<^verbatim>\<open>os.path.join(a, b)\<close> of \<^verbatim>\<open>posixpath\<close>.\<close>

definition os_path_join :: "string \<Rightarrow> string \<Rightarrow> string" where
  "os_path_join a b =
     (if take 1 b = ''/'' then b
      else if a = [] \<or> drop (length a - 1) a = ''/'' then a @ b
      else a @ ''/'' @ b)"

text \<open>\<^verbatim>\<open>sep.join(xs)\<close>\<close>

fun str_join :: "string \<Rightarrow> string list \<Rightarrow> string" where
  "str_join sep [] = []"
| "str_join sep [x] = x"
| "str_join sep (x # y # ys) = x @ sep @ str_join sep (y # ys)"

definition imports_module :: "os_env \<Rightarrow> filesystem \<Rightarrow> string \<Rightarrow> string \<Rightarrow> error + bool" where
  "imports_module env fs path module_name =
     (case read_file fs path of
        Inl e \<Rightarrow> Inl e
      | Inr source \<Rightarrow>
          (case ast_parse env source of
             Inl e \<Rightarrow> Inl e
           | Inr root \<Rightarrow> Inr (visit module_name root False)))"

section \<open>The walkers\<close>

text \<open>
  A loop that calls a visitor on each element and stops at the first exception: the
  loops of \<^verbatim>\<open>os.path.walk\<close> over the directories and of \<^verbatim>\<open>_visit_path\<close> over the
  patterns and the paths. What an exception carries is left to the visitor: the
  finders, which change no file, raise the error alone; the renamer raises it with the
  renamer and the files as they are at that moment.
\<close>

fun visit_all :: "('s \<Rightarrow> string \<Rightarrow> 'e + 's) \<Rightarrow> string list \<Rightarrow> 's \<Rightarrow> 'e + 's" where
  "visit_all f [] st = Inr st"
| "visit_all f (p # ps) st =
     (case f st p of Inl e \<Rightarrow> Inl e | Inr st' \<Rightarrow> visit_all f ps st')"

record walker =
  "module_name" :: string
  path :: "string option"
  globs :: "string list"

definition BaseImportWalker_init :: "string \<Rightarrow> walker" where
  "BaseImportWalker_init m =
     \<lparr>module_name = m, path = None, globs = [''*.py'', ''*.enaml'', ''*.rst'']\<rparr>"

text \<open>
  \<^verbatim>\<open>_visit_path\<close>: for each pattern of \<^verbatim>\<open>self.globs\<close> joined to the directory, for each
  path that \<^verbatim>\<open>glob.glob\<close> returns, \<^verbatim>\<open>self._visit_module(module_path)\<close>. The visitor of
  the subclass is the parameter \<open>visit_module\<close>.
\<close>

definition visit_path ::
  "os_env \<Rightarrow> string list \<Rightarrow> ('s \<Rightarrow> string \<Rightarrow> 'e + 's) \<Rightarrow> 's \<Rightarrow> string \<Rightarrow> 'e + 's" where
  "visit_path env gs visit_module st dirname =
     visit_all (\<lambda>st' glob_pattern. visit_all visit_module (glob_glob env glob_pattern) st')
       (map (os_path_join dirname) gs) st"

text \<open>\<^verbatim>\<open>walk\<close> behind its assignment to \<^verbatim>\<open>self.path\<close>, which each subclass below does.\<close>

definition walk ::
  "os_env \<Rightarrow> string list \<Rightarrow> ('s \<Rightarrow> string \<Rightarrow> 'e + 's) \<Rightarrow> 's \<Rightarrow> string \<Rightarrow> 'e + 's" where
  "walk env gs visit_module st root =
     visit_all (visit_path env gs visit_module) (walk_dirs env root) st"

text \<open>The paths a walk visits, in order.\<close>

definition visited :: "os_env \<Rightarrow> string list \<Rightarrow> string \<Rightarrow> string list" where
  "visited env gs root =
     concat (map (\<lambda>d. concat (map (\<lambda>g. glob_glob env (os_path_join d g)) gs))
       (walk_dirs env root))"

subsection \<open>The finders\<close>

text \<open>
  \<^verbatim>\<open>found_modules\<close> is a Python set. \<^verbatim>\<open>__str__\<close> iterates over it in an order that the
  runtime chooses; that order is the argument \<open>order\<close>, a list of the set's elements.
  The generator over \<^verbatim>\<open>os.path.relpath\<close> is consumed by \<^verbatim>\<open>sorted\<close>; with \<^verbatim>\<open>self.path\<close>
  still \<^verbatim>\<open>None\<close> (no walk yet) \<^verbatim>\<open>relpath\<close> raises on the first element.
\<close>

record collecting_walker = walker +
  found_modules :: "string set"

definition CollectingImportWalker_init :: "string \<Rightarrow> collecting_walker" where
  "CollectingImportWalker_init m =
     walker.extend (BaseImportWalker_init m) (collecting_walker.fields {})"

definition CollectingImportWalker_str ::
  "os_env \<Rightarrow> collecting_walker \<Rightarrow> string list \<Rightarrow> error + string" where
  "CollectingImportWalker_str env self order =
     (case path self of
        None \<Rightarrow> (if order = [] then Inr (str_join [nl] []) else Inl AttributeError)
      | Some root \<Rightarrow> Inr (str_join [nl] (sort (map (\<lambda>module_path. relpath env module_path root) order))))"

definition ImportFinderAST_visit_module ::
  "os_env \<Rightarrow> filesystem \<Rightarrow> collecting_walker \<Rightarrow> string \<Rightarrow> error + collecting_walker" where
  "ImportFinderAST_visit_module env fs self module_path =
     (case imports_module env fs module_path (module_name self) of
        Inl e \<Rightarrow> Inl e
      | Inr found \<Rightarrow>
          Inr (if found
               then self\<lparr>found_modules := insert module_path (found_modules self)\<rparr>
               else self))"

definition ImportFinderAST_walk ::
  "os_env \<Rightarrow> filesystem \<Rightarrow> collecting_walker \<Rightarrow> string \<Rightarrow> error + collecting_walker" where
  "ImportFinderAST_walk env fs self root =
     walk env (globs self) (ImportFinderAST_visit_module env fs) (self\<lparr>path := Some root\<rparr>) root"

record finder_re = collecting_walker +
  finder_import_regex :: regex
  finder_import_from_regex :: regex

definition ImportFinderRE_init :: "string \<Rightarrow> error + finder_re" where
  "ImportFinderRE_init m =
     (case make_import_regexes m of
        Inl e \<Rightarrow> Inl e
      | Inr (r, rf) \<Rightarrow>
          Inr (collecting_walker.extend (CollectingImportWalker_init m)
                 (finder_re.fields r rf)))"

definition ImportFinderRE_visit_module ::
  "filesystem \<Rightarrow> finder_re \<Rightarrow> string \<Rightarrow> error + finder_re" where
  "ImportFinderRE_visit_module fs self module_path =
     (case read_file fs module_path of
        Inl e \<Rightarrow> Inl e
      | Inr source \<Rightarrow>
          Inr (if search (finder_import_regex self) source
               then self\<lparr>found_modules := insert module_path (found_modules self)\<rparr>
               else if search (finder_import_from_regex self) source
               then self\<lparr>found_modules := insert module_path (found_modules self)\<rparr>
               else self))"

definition ImportFinderRE_walk ::
  "os_env \<Rightarrow> filesystem \<Rightarrow> finder_re \<Rightarrow> string \<Rightarrow> error + finder_re" where
  "ImportFinderRE_walk env fs self root =
     walk env (globs self) (ImportFinderRE_visit_module fs) (self\<lparr>path := Some root\<rparr>) root"

subsection \<open>The renamer\<close>

record renamer = walker +
  new_module_name :: string
  import_regex :: regex
  import_from_regex :: regex
  import_from_repl :: string
  import_repl :: string
  "output" :: "string list"

definition ImportRenamer_init :: "string \<Rightarrow> string \<Rightarrow> error + renamer" where
  "ImportRenamer_init m new_name =
     (case make_import_regexes m of
        Inl e \<Rightarrow> Inl e
      | Inr (r, rf) \<Rightarrow>
          (case make_repl ''from'' new_name of
             Inl e \<Rightarrow> Inl e
           | Inr from_repl \<Rightarrow>
               (case make_repl ''import'' new_name of
                  Inl e \<Rightarrow> Inl e
                | Inr repl \<Rightarrow>
                    Inr (walker.extend (BaseImportWalker_init m)
                           (renamer.fields new_name r rf from_repl repl [])))))"

text \<open>
  \<^verbatim>\<open>_meets_pep8\<close>: the loop over \<^verbatim>\<open>regex.finditer(source)\<close> with its variable
  \<^verbatim>\<open>retval\<close>, which starts as \<^verbatim>\<open>None\<close>; the loop leaves at the first expansion longer
  than 79 characters.
\<close>

fun meets_pep8_loop :: "string \<Rightarrow> string list \<Rightarrow> bool option \<Rightarrow> bool option" where
  "meets_pep8_loop repl [] retval = retval"
| "meets_pep8_loop repl (g # gs) retval =
     (let new_line = expand repl g
      in if length new_line > 79 then Some False
         else meets_pep8_loop repl gs (Some True))"

definition meets_pep8 :: "string \<Rightarrow> regex \<Rightarrow> string \<Rightarrow> bool option" where
  "meets_pep8 source regex repl = meets_pep8_loop repl (finditer regex source) None"

text \<open>
  \<^verbatim>\<open>_check\<close> returns \<^verbatim>\<open>None\<close> when the pattern is not found; otherwise it appends the
  entry to \<^verbatim>\<open>self.output\<close> and returns the substituted source. \<^verbatim>\<open>if self._meets_pep8(...)\<close>
  takes the first branch for \<^verbatim>\<open>True\<close> only.
\<close>

definition check ::
  "renamer \<Rightarrow> string \<Rightarrow> string \<Rightarrow> regex \<Rightarrow> string \<Rightarrow> renamer \<times> string option" where
  "check self module_path source regex repl =
     (if \<not> search regex source then (self, None)
      else
        (let out = (if meets_pep8 source regex repl = Some True then module_path
                    else ''pep8: '' @ module_path)
         in (self\<lparr>output := output self @ [out]\<rparr>, Some (sub regex repl source))))"

definition check_import :: "renamer \<Rightarrow> string \<Rightarrow> string \<Rightarrow> renamer \<times> string option" where
  "check_import self module_path source =
     check self module_path source (import_regex self) (import_repl self)"

definition check_import_from :: "renamer \<Rightarrow> string \<Rightarrow> string \<Rightarrow> renamer \<times> string option" where
  "check_import_from self module_path source =
     check self module_path source (import_from_regex self) (import_from_repl self)"

text \<open>
  \<^verbatim>\<open>ImportRenamer._visit_module\<close>, on the renamer and the files. The source is read,
  \<^verbatim>\<open>_check_import\<close> is called, \<^verbatim>\<open>_check_import_from\<close> only when that returned \<^verbatim>\<open>None\<close>, and
  the file is opened for writing when a new source has come back. The entry is
  appended inside \<^verbatim>\<open>_check\<close>, before the file is opened for writing: an exception raised
  there leaves a renamer that holds the entry.
\<close>

definition ImportRenamer_visit_module ::
  "renamer \<times> filesystem \<Rightarrow> string \<Rightarrow> error \<times> (renamer \<times> filesystem) + renamer \<times> filesystem" where
  "ImportRenamer_visit_module st module_path =
     (case read_file (snd st) module_path of
        Inl e \<Rightarrow> Inl (e, st)
      | Inr source \<Rightarrow>
          (case (case check_import (fst st) module_path source of
                   (self1, None) \<Rightarrow> check_import_from self1 module_path source
                 | (self1, Some new_source) \<Rightarrow> (self1, Some new_source)) of
             (self2, None) \<Rightarrow> Inr (self2, snd st)
           | (self2, Some new_source) \<Rightarrow>
               (case write_file (snd st) module_path new_source of
                  Inl e \<Rightarrow> Inl (e, (self2, snd st))
                | Inr fs' \<Rightarrow> Inr (self2, fs'))))"

definition ImportRenamer_walk ::
  "os_env \<Rightarrow> renamer \<times> filesystem \<Rightarrow> string
     \<Rightarrow> error \<times> (renamer \<times> filesystem) + renamer \<times> filesystem" where
  "ImportRenamer_walk env st root =
     walk env (globs (fst st)) ImportRenamer_visit_module
       ((fst st)\<lparr>path := Some root\<rparr>, snd st) root"

definition ImportRenamer_str :: "renamer \<Rightarrow> string" where
  "ImportRenamer_str self = str_join [nl] (output self)"

text \<open>
  \<^verbatim>\<open>rename_imports\<close>: what it prints, and the files it leaves; when an exception ends
  the run nothing is printed, and the files are left as they are at that moment.
  \<^verbatim>\<open>find_imports\<close> prints the pattern-based finder; the structural finder is run the same
  way. The set of found paths is printed from one of its enumerations; every other one
  prints the same, as is shown below.
\<close>

definition rename_imports ::
  "os_env \<Rightarrow> filesystem \<Rightarrow> string \<Rightarrow> string \<Rightarrow> string
     \<Rightarrow> error \<times> filesystem + string \<times> filesystem" where
  "rename_imports env fs root m new_name =
     (case ImportRenamer_init m new_name of
        Inl e \<Rightarrow> Inl (e, fs)
      | Inr renamer \<Rightarrow>
          (case ImportRenamer_walk env (renamer, fs) root of
             Inl (e, st) \<Rightarrow> Inl (e, snd st)
           | Inr st \<Rightarrow> Inr (ImportRenamer_str (fst st), snd st)))"

definition find_imports :: "os_env \<Rightarrow> filesystem \<Rightarrow> string \<Rightarrow> string \<Rightarrow> error + string" where
  "find_imports env fs root m =
     (case ImportFinderRE_init m of
        Inl e \<Rightarrow> Inl e
      | Inr finder \<Rightarrow>
          (case ImportFinderRE_walk env fs finder root of
             Inl e \<Rightarrow> Inl e
           | Inr finder' \<Rightarrow>
               CollectingImportWalker_str env (collecting_walker.truncate finder')
                 (sorted_list_of_set (found_modules finder'))))"

definition find_imports_ast :: "os_env \<Rightarrow> filesystem \<Rightarrow> string \<Rightarrow> string \<Rightarrow> error + string" where
  "find_imports_ast env fs root m =
     (case ImportFinderAST_walk env fs (CollectingImportWalker_init m) root of
        Inl e \<Rightarrow> Inl e
      | Inr finder \<Rightarrow>
          CollectingImportWalker_str env finder (sorted_list_of_set (found_modules finder)))"

section \<open>A concrete tree\<close>

text \<open>
  One directory \<open>root\<close> that holds the given files, for the runs evaluated below.
  \<open>parse_table\<close> lists what \<^verbatim>\<open>ast.parse\<close> returns for the sources used in them (a
  \<^verbatim>\<open>Module\<close> node over the statements); a source that is not listed is one the parser
  rejects. \<open>below\<close> is \<^verbatim>\<open>os.path.relpath\<close> on a path under the start directory.
  \<open>files\<close> are files that can all be written.
\<close>

definition parse_table :: "(string \<times> node) list" where
  "parse_table =
     [(''import foo.bar'', Other [Import [Alias ''foo.bar'' None]]),
      (''from foo import baz'', Other [ImportFrom (Some ''foo'') [Alias ''baz'' None] 0]),
      (''from . import foo'', Other [ImportFrom None [Alias ''foo'' None] 1]),
      (''from .sub import x'', Other [ImportFrom (Some ''sub'') [Alias ''x'' None] 1]),
      (''import Mother'', Other [Import [Alias ''Mother'' None]])]"

definition below :: "string \<Rightarrow> string \<Rightarrow> string" where
  "below p start = (if startswith p (start @ ''/'') then drop (length start + 1) p else p)"

definition one_dir :: "string list \<Rightarrow> os_env" where
  "one_dir names =
     \<lparr>walk_dirs = (\<lambda>top. if top = ''root'' then [''root''] else []),
      glob_glob = (\<lambda>pat. if pat = ''root/*.py'' then map (os_path_join ''root'') names else []),
      relpath = below,
      ast_parse = (\<lambda>source. case map_of parse_table source of
                                 None \<Rightarrow> Inl SyntaxError
                               | Some tree \<Rightarrow> Inr tree)\<rparr>"

definition files :: "(string \<times> string) list \<Rightarrow> filesystem" where
  "files fl = \<lparr>contents = map_of fl, unwritable = {}, written = []\<rparr>"

text \<open>The renamer that \<^verbatim>\<open>ImportRenamer("foo", "qux")\<close> builds.\<close>

definition foo_to_qux :: renamer where
  "foo_to_qux =
     \<lparr>module_name = ''foo'', path = None, globs = [''*.py'', ''*.enaml'', ''*.rst''],
      new_module_name = ''qux'',
      import_regex = ImportRe [Lit CHR ''f'', Lit CHR ''o'', Lit CHR ''o''],
      import_from_regex = ImportFromRe [Lit CHR ''f'', Lit CHR ''o'', Lit CHR ''o''],
      import_from_repl = ''from qux'', import_repl = ''import qux'', output = []\<rparr>"

section \<open>Properties of the renamer's visit of one file\<close>

lemma ImportRenamer_init_foo_qux: "ImportRenamer_init ''foo'' ''qux'' = Inr foo_to_qux"
  by code_simp

lemma check_no_match:
  "\<not> search regex source \<Longrightarrow> check self p source regex repl = (self, None)"
  by (simp add: check_def)

lemma check_match:
  "search regex source \<Longrightarrow>
   check self p source regex repl =
     (self\<lparr>output := output self @
        [if meets_pep8 source regex repl = Some True then p else ''pep8: '' @ p]\<rparr>,
      Some (sub regex repl source))"
  by (simp add: check_def)

text \<open>The definitions that make up the visit of one file by the renamer.\<close>

lemmas visit_module_defs =
  ImportRenamer_visit_module_def read_file_def write_file_def check_import_def
  check_import_from_def check_def Let_def

lemma visit_module_unreadable:
  "contents fs p = None \<Longrightarrow> ImportRenamer_visit_module (r, fs) p = Inl (IOError, (r, fs))"
  by (simp add: ImportRenamer_visit_module_def read_file_def)

lemma visit_module_eq:
  assumes "contents fs p = Some src"
  shows "ImportRenamer_visit_module (r, fs) p =
     (if search (import_regex r) src
      then (if p \<in> unwritable fs
            then Inl (IOError,
                      (r\<lparr>output := output r @
                          [if meets_pep8 src (import_regex r) (import_repl r) = Some True
                           then p else ''pep8: '' @ p]\<rparr>, fs))
            else Inr (r\<lparr>output := output r @
                          [if meets_pep8 src (import_regex r) (import_repl r) = Some True
                           then p else ''pep8: '' @ p]\<rparr>,
                      fs\<lparr>contents := (contents fs)(p \<mapsto> sub (import_regex r) (import_repl r) src),
                         written := written fs @ [p]\<rparr>))
      else if search (import_from_regex r) src
      then (if p \<in> unwritable fs
            then Inl (IOError,
                      (r\<lparr>output := output r @
                          [if meets_pep8 src (import_from_regex r) (import_from_repl r) = Some True
                           then p else ''pep8: '' @ p]\<rparr>, fs))
            else Inr (r\<lparr>output := output r @
                          [if meets_pep8 src (import_from_regex r) (import_from_repl r) = Some True
                           then p else ''pep8: '' @ p]\<rparr>,
                      fs\<lparr>contents := (contents fs)(p \<mapsto>
                             sub (import_from_regex r) (import_from_repl r) src),
                         written := written fs @ [p]\<rparr>))
      else Inr (r, fs))"
  using assms
  by (simp add: ImportRenamer_visit_module_def read_file_def write_file_def check_import_def
      check_import_from_def check_no_match check_match)

text \<open>
  C6. The visit of a readable file applies the plain-import pattern first. When it is
  found anywhere in the source, the plain-import substitution alone decides the entry
  and the new content; the from-import pattern is tried only when the plain-import
  pattern is not found; when neither is found, the renamer and the files are as before:
  nothing is written and no entry is appended. Where a pattern is found, the new
  content replaces the old one and the path joins the log of writes, unless the file
  cannot be opened for writing; then the exception carries the renamer with the entry
  and the files as they were.
\<close>

theorem visit_module_plain_then_from:
  assumes "contents fs p = Some src"
  shows "ImportRenamer_visit_module (r, fs) p =
     (if search (import_regex r) src
      then (if p \<in> unwritable fs
            then Inl (IOError,
                      (r\<lparr>output := output r @
                          [if meets_pep8 src (import_regex r) (import_repl r) = Some True
                           then p else ''pep8: '' @ p]\<rparr>, fs))
            else Inr (r\<lparr>output := output r @
                          [if meets_pep8 src (import_regex r) (import_repl r) = Some True
                           then p else ''pep8: '' @ p]\<rparr>,
                      fs\<lparr>contents := (contents fs)(p \<mapsto> sub (import_regex r) (import_repl r) src),
                         written := written fs @ [p]\<rparr>))
      else if search (import_from_regex r) src
      then (if p \<in> unwritable fs
            then Inl (IOError,
                      (r\<lparr>output := output r @
                          [if meets_pep8 src (import_from_regex r) (import_from_repl r) = Some True
                           then p else ''pep8: '' @ p]\<rparr>, fs))
            else Inr (r\<lparr>output := output r @
                          [if meets_pep8 src (import_from_regex r) (import_from_repl r) = Some True
                           then p else ''pep8: '' @ p]\<rparr>,
                      fs\<lparr>contents := (contents fs)(p \<mapsto>
                             sub (import_from_regex r) (import_from_repl r) src),
                         written := written fs @ [p]\<rparr>))
      else Inr (r, fs))"
  using assms
  by (simp add: ImportRenamer_visit_module_def read_file_def write_file_def check_import_def
      check_import_from_def check_no_match check_match)

theorem visit_module_plain_then_from_witness:
  "contents (files [(''root/a.py'', ''import foo.bar''), (''root/c.py'', ''import os'')])
     ''root/c.py'' = Some ''import os''
   \<and> ImportRenamer_visit_module
       (foo_to_qux, files [(''root/a.py'', ''import foo.bar''), (''root/c.py'', ''import os'')])
       ''root/c.py''
     = Inr (foo_to_qux, files [(''root/a.py'', ''import foo.bar''), (''root/c.py'', ''import os'')])
   \<and> contents (files [(''root/b.py'', ''import foo'' @ [nl] @ ''from foo import x'')])
       ''root/b.py'' = Some (''import foo'' @ [nl] @ ''from foo import x'')
   \<and> ImportRenamer_visit_module
       (foo_to_qux, files [(''root/b.py'', ''import foo'' @ [nl] @ ''from foo import x'')])
       ''root/b.py''
     = Inr (foo_to_qux\<lparr>output := [''root/b.py'']\<rparr>,
            (files [(''root/b.py'', ''import foo'' @ [nl] @ ''from foo import x'')])
              \<lparr>contents := (contents (files [(''root/b.py'', ''import foo'' @ [nl] @ ''from foo import x'')]))
                   (''root/b.py'' \<mapsto> ''import qux'' @ [nl] @ ''from foo import x''),
               written := [''root/b.py'']\<rparr>)"
proof -
  let ?F = "files [(''root/a.py'', ''import foo.bar''), (''root/c.py'', ''import os'')]"
  let ?src = "''import foo'' @ [nl] @ ''from foo import x''"
  let ?G = "files [(''root/b.py'', ?src)]"
  have h: "contents ?F ''root/c.py'' = Some ''import os''"
    by (simp add: files_def)
  have n1: "\<not> search (import_regex foo_to_qux) ''import os''"
    by code_simp
  have n2: "\<not> search (import_from_regex foo_to_qux) ''import os''"
    by code_simp
  have g: "contents ?G ''root/b.py'' = Some ?src"
    by (simp add: files_def)
  have s: "search (import_regex foo_to_qux) ?src" by code_simp
  have m: "meets_pep8 ?src (import_regex foo_to_qux) (import_repl foo_to_qux) = Some True"
    by code_simp
  have new: "sub (import_regex foo_to_qux) (import_repl foo_to_qux) ?src
      = ''import qux'' @ [nl] @ ''from foo import x''"
    by code_simp
  have out: "output foo_to_qux = []" by (simp add: foo_to_qux_def)
  have w: "''root/b.py'' \<notin> unwritable ?G" "written ?G = []" by (simp_all add: files_def)
  have 1: "ImportRenamer_visit_module (foo_to_qux, ?F) ''root/c.py'' = Inr (foo_to_qux, ?F)"
    using n1 n2 visit_module_plain_then_from [OF h, of foo_to_qux] by simp
  have 2: "ImportRenamer_visit_module (foo_to_qux, ?G) ''root/b.py''
     = Inr (foo_to_qux\<lparr>output := [''root/b.py'']\<rparr>,
            ?G\<lparr>contents := (contents ?G)(''root/b.py'' \<mapsto> ''import qux'' @ [nl] @ ''from foo import x''),
               written := [''root/b.py'']\<rparr>)"
    using s m new out w visit_module_plain_then_from [OF g, of foo_to_qux] by simp
  from h g 1 2 show ?thesis by simp
qed

lemma scan_match:
  "match_here r s = Some (g, rest) \<Longrightarrow> scan r s = Inl g # scan r rest"
  by (subst scan.simps) simp

lemma scan_nil: "match_here r [] = None \<Longrightarrow> scan r [] = []"
  by (subst scan.simps) simp











section \<open>Properties of a walk\<close>

text \<open>Whether a result is a given value does not depend on how an error is shown.\<close>

lemma map_sum_Inr_any: "(map_sum f g x = Inr y) = (map_sum (\<lambda>e. ()) g x = Inr y)"
  by (cases x) auto

lemma visit_all_append:
  "visit_all f (xs @ ys) st =
     (case visit_all f xs st of Inl e \<Rightarrow> Inl e | Inr st' \<Rightarrow> visit_all f ys st')"
  by (induction xs arbitrary: st) (auto split: sum.splits)

lemma visit_all_concat:
  "visit_all (\<lambda>st' x. visit_all f (g x) st') xs st = visit_all f (concat (map g xs)) st"
  by (induction xs arbitrary: st) (auto simp: visit_all_append split: sum.splits)

lemma walk_visited: "walk env gs f st root = visit_all f (visited env gs root) st"
proof -
  have "visit_path env gs f = (\<lambda>st' d. visit_all f (concat (map (\<lambda>g. glob_glob env (os_path_join d g)) gs)) st')"
    by (intro ext) (simp add: visit_path_def visit_all_concat comp_def)
  then show ?thesis
    by (simp add: walk_def visited_def visit_all_concat)
qed

lemma visit_module_step:
  assumes "ImportRenamer_visit_module (r, fs) p = Inr (r', fs')"
  shows "(\<exists>new e. fs' = fs\<lparr>contents := (contents fs)(p \<mapsto> new), written := written fs @ [p]\<rparr>
            \<and> r' = r\<lparr>output := output r @ [e]\<rparr> \<and> (e = p \<or> e = ''pep8: '' @ p))
          \<or> (fs' = fs \<and> r' = r)"
proof -
  obtain src where src: "contents fs p = Some src"
    using assms by (cases "contents fs p") (auto simp: visit_module_unreadable)
  show ?thesis
    using assms by (auto simp: visit_module_eq [OF src] split: if_splits)
qed

text \<open>
  The entries a walk appends and the files it writes go together, in the order of the
  visits.
\<close>

lemma visit_all_trace:
  "visit_all ImportRenamer_visit_module ps (r, fs) = Inr (r', fs') \<Longrightarrow>
   \<exists>es ws. output r' = output r @ es \<and> written fs' = written fs @ ws \<and> subseq ws ps
     \<and> list_all2 (\<lambda>e p. e = p \<or> e = ''pep8: '' @ p) es ws"
proof (induction ps arbitrary: r fs)
  case Nil
  then show ?case by simp
next
  case (Cons p ps)
  from Cons.prems obtain r1 fs1
    where step: "ImportRenamer_visit_module (r, fs) p = Inr (r1, fs1)"
      and rest: "visit_all ImportRenamer_visit_module ps (r1, fs1) = Inr (r', fs')"
    by (auto split: sum.splits)
  from Cons.IH [OF rest] obtain es ws
    where o: "output r' = output r1 @ es" and w: "written fs' = written fs1 @ ws"
      and sq: "subseq ws ps" and al: "list_all2 (\<lambda>e p. e = p \<or> e = ''pep8: '' @ p) es ws"
    by blast
  from visit_module_step [OF step] show ?case
  proof
    assume "\<exists>new e. fs1 = fs\<lparr>contents := (contents fs)(p \<mapsto> new), written := written fs @ [p]\<rparr>
      \<and> r1 = r\<lparr>output := output r @ [e]\<rparr> \<and> (e = p \<or> e = ''pep8: '' @ p)"
    then obtain new e
      where f: "fs1 = fs\<lparr>contents := (contents fs)(p \<mapsto> new), written := written fs @ [p]\<rparr>"
      and r: "r1 = r\<lparr>output := output r @ [e]\<rparr>" and e: "e = p \<or> e = ''pep8: '' @ p"
      by blast
    have "output r' = output r @ (e # es)" using o r by simp
    moreover have "written fs' = written fs @ (p # ws)" using w f by simp
    moreover have "subseq (p # ws) (p # ps)" using sq by simp
    moreover have "list_all2 (\<lambda>e p. e = p \<or> e = ''pep8: '' @ p) (e # es) (p # ws)"
      using al e by simp
    ultimately show ?thesis by blast
  next
    assume "fs1 = fs \<and> r1 = r"
    then have "output r' = output r @ es" "written fs' = written fs @ ws"
      using o w by simp_all
    moreover have "subseq ws (p # ps)" using sq by (rule list_emb_Cons)
    ultimately show ?thesis using al by blast
  qed
qed

lemma ImportRenamer_init_fields:
  "ImportRenamer_init m new_name = Inr r \<Longrightarrow>
   output r = [] \<and> globs r = [''*.py'', ''*.enaml'', ''*.rst''] \<and> path r = None
   \<and> module_name r = m \<and> new_module_name r = new_name"
  by (auto simp: ImportRenamer_init_def BaseImportWalker_init_def walker.defs renamer.defs
      split: sum.splits)

text \<open>
  C8, as the code has it. The report that \<^verbatim>\<open>rename_imports\<close> prints is the entries joined
  by newlines, one entry for each file written, in the order of the writes, which is
  the order of the visits; an entry is the path under which the file was visited, or
  that path behind \<^verbatim>\<open>pep8: \<close>.
\<close>

theorem report_lines:
  assumes "rename_imports env fs root m new_name = Inr (report, fs')"
  shows "\<exists>es ws. report = str_join [nl] es \<and> written fs' = written fs @ ws
      \<and> subseq ws (visited env [''*.py'', ''*.enaml'', ''*.rst''] root)
      \<and> list_all2 (\<lambda>e p. e = p \<or> e = ''pep8: '' @ p) es ws"
proof -
  from assms obtain r r' where init: "ImportRenamer_init m new_name = Inr r"
    and w: "ImportRenamer_walk env (r, fs) root = Inr (r', fs')"
    and rep: "report = ImportRenamer_str r'"
    by (auto simp: rename_imports_def split: sum.splits)
  note f = ImportRenamer_init_fields [OF init]
  from w f have "visit_all ImportRenamer_visit_module
      (visited env [''*.py'', ''*.enaml'', ''*.rst''] root) (r\<lparr>path := Some root\<rparr>, fs) = Inr (r', fs')"
    by (simp add: ImportRenamer_walk_def walk_visited)
  from visit_all_trace [OF this] obtain es ws
    where "output r' = output (r\<lparr>path := Some root\<rparr>) @ es"
      and "written fs' = written fs @ ws"
      and "subseq ws (visited env [''*.py'', ''*.enaml'', ''*.rst''] root)"
      and "list_all2 (\<lambda>e p. e = p \<or> e = ''pep8: '' @ p) es ws"
    by blast
  moreover from this f rep have "report = str_join [nl] es"
    by (simp add: ImportRenamer_str_def)
  ultimately show ?thesis by blast
qed

theorem report_lines_witness:
  "\<exists>report fs'.
     rename_imports (one_dir [''a.py'', ''b.py''])
       (files [(''root/a.py'', ''import foo.bar''), (''root/b.py'', ''from foo import baz'')])
       ''root'' ''foo'' ''qux'' = Inr (report, fs')
     \<and> (\<exists>es ws. report = str_join [nl] es
          \<and> written fs' =
              written (files [(''root/a.py'', ''import foo.bar''), (''root/b.py'', ''from foo import baz'')]) @ ws
          \<and> subseq ws (visited (one_dir [''a.py'', ''b.py'']) [''*.py'', ''*.enaml'', ''*.rst''] ''root'')
          \<and> list_all2 (\<lambda>e p. e = p \<or> e = ''pep8: '' @ p) es ws)"
proof -
  let ?run = "rename_imports (one_dir [''a.py'', ''b.py''])
       (files [(''root/a.py'', ''import foo.bar''), (''root/b.py'', ''from foo import baz'')])
       ''root'' ''foo'' ''qux''"
  have "\<not> isl ?run" by code_simp
  then obtain report fs' where h: "?run = Inr (report, fs')"
    by (cases ?run) auto
  from report_lines [OF h] h show ?thesis by blast
qed

text \<open>
  A report line that is neither the path relative to the root nor that path behind
  \<^verbatim>\<open>style: \<close>.
\<close>

theorem report_lines_counterexample:
  "map_sum id fst
     (rename_imports (one_dir [''a.py''])
        (files [(''root/a.py'', ''import foo.'' @ replicate 70 CHR ''x'')])
        ''root'' ''foo'' ''qux'')
     = Inr ''pep8: root/a.py''
   \<and> relpath (one_dir [''a.py'']) ''root/a.py'' ''root'' = ''a.py''
   \<and> ''pep8: root/a.py'' \<noteq> ''a.py'' \<and> ''pep8: root/a.py'' \<noteq> ''style: a.py''"
  unfolding map_sum_Inr_any [of id] by code_simp

section \<open>Two runs of the renamer\<close>

text \<open>
  What the visit of a file leaves of a source: the plain-import substitution when the
  plain-import pattern is found in it, else the from-import substitution when that
  pattern is found, else the source itself.
\<close>

abbreviation left_by_visit :: "renamer \<Rightarrow> string \<Rightarrow> string" where
  "left_by_visit r src \<equiv>
     (if search (import_regex r) src then sub (import_regex r) (import_repl r) src
      else if search (import_from_regex r) src
      then sub (import_from_regex r) (import_from_repl r) src
      else src)"

lemma visit_all_noop:
  "\<forall>p\<in>set ps. \<exists>src. contents fs p = Some src \<and> \<not> search (import_regex r) src
      \<and> \<not> search (import_from_regex r) src \<Longrightarrow>
   visit_all ImportRenamer_visit_module ps (r, fs) = Inr (r, fs)"
proof (induction ps)
  case Nil
  show ?case by simp
next
  case (Cons p ps)
  then obtain src where "contents fs p = Some src" "\<not> search (import_regex r) src"
    "\<not> search (import_from_regex r) src"
    by auto
  then have "ImportRenamer_visit_module (r, fs) p = Inr (r, fs)"
    by (simp add: visit_module_eq)
  with Cons show ?case by simp
qed

lemma visit_all_noop_conv:
  "visit_all ImportRenamer_visit_module ps (r, fs) = Inr (r', fs') \<Longrightarrow>
   output r' = output r \<Longrightarrow>
   \<forall>p\<in>set ps. \<exists>src. contents fs p = Some src \<and> \<not> search (import_regex r) src
      \<and> \<not> search (import_from_regex r) src"
proof (induction ps)
  case Nil
  show ?case by simp
next
  case (Cons p ps)
  from Cons.prems(1) obtain r1 fs1
    where step: "ImportRenamer_visit_module (r, fs) p = Inr (r1, fs1)"
      and rest: "visit_all ImportRenamer_visit_module ps (r1, fs1) = Inr (r', fs')"
    by (auto split: sum.splits)
  from visit_all_trace [OF rest] obtain es where o: "output r' = output r1 @ es"
    by blast
  obtain src where src: "contents fs p = Some src"
    using step by (cases "contents fs p") (auto simp: visit_module_unreadable)
  have len: "length (output r) = length (output r1) + length es"
    using o Cons.prems(2) by (metis length_append)
  have same: "output r1 = output r"
    using visit_module_step [OF step]
  proof
    assume "\<exists>new e. fs1 = fs\<lparr>contents := (contents fs)(p \<mapsto> new), written := written fs @ [p]\<rparr>
      \<and> r1 = r\<lparr>output := output r @ [e]\<rparr> \<and> (e = p \<or> e = ''pep8: '' @ p)"
    then obtain e where "r1 = r\<lparr>output := output r @ [e]\<rparr>" by blast
    then have "length (output r1) = length (output r) + 1" by simp
    with len show ?thesis by simp
  next
    assume "fs1 = fs \<and> r1 = r"
    then show ?thesis by simp
  qed
  have no: "\<not> search (import_regex r) src \<and> \<not> search (import_from_regex r) src"
    using step same by (auto simp: visit_module_eq [OF src] split: if_splits)
  then have "r1 = r" "fs1 = fs"
    using step by (simp_all add: visit_module_eq [OF src])
  with rest Cons.IH Cons.prems(2) have "\<forall>p\<in>set ps. \<exists>src. contents fs p = Some src
      \<and> \<not> search (import_regex r) src \<and> \<not> search (import_from_regex r) src"
    by simp
  with src no show ?case by simp
qed

text \<open>
  One run is without effect (the files, the log of writes and the entries are as before;
  the renamer differs only in the root that the walk records) exactly when every
  visited file can be read and neither pattern is found in it.
\<close>

lemma walk_noop_iff:
  "(ImportRenamer_walk env (r, fs) root = Inr (r\<lparr>path := Some root\<rparr>, fs)) =
   (\<forall>p\<in>set (visited env (globs r) root).
      \<exists>src. contents fs p = Some src \<and> \<not> search (import_regex r) src
        \<and> \<not> search (import_from_regex r) src)"
proof
  assume "ImportRenamer_walk env (r, fs) root = Inr (r\<lparr>path := Some root\<rparr>, fs)"
  then have "visit_all ImportRenamer_visit_module (visited env (globs r) root)
      (r\<lparr>path := Some root\<rparr>, fs) = Inr (r\<lparr>path := Some root\<rparr>, fs)"
    by (simp add: ImportRenamer_walk_def walk_visited)
  from visit_all_noop_conv [OF this] show "\<forall>p\<in>set (visited env (globs r) root).
      \<exists>src. contents fs p = Some src \<and> \<not> search (import_regex r) src
        \<and> \<not> search (import_from_regex r) src"
    by simp
next
  assume "\<forall>p\<in>set (visited env (globs r) root).
      \<exists>src. contents fs p = Some src \<and> \<not> search (import_regex r) src
        \<and> \<not> search (import_from_regex r) src"
  then have "visit_all ImportRenamer_visit_module (visited env (globs r) root)
      (r\<lparr>path := Some root\<rparr>, fs) = Inr (r\<lparr>path := Some root\<rparr>, fs)"
    by (intro visit_all_noop) simp
  then show "ImportRenamer_walk env (r, fs) root = Inr (r\<lparr>path := Some root\<rparr>, fs)"
    by (simp add: ImportRenamer_walk_def walk_visited)
qed

text \<open>
  Given that a visit that returns has read the file, has left in it what
  \<open>left_by_visit\<close> says and has kept the patterns of the renamer: after a run over
  distinct paths that returns, every visited file was readable and holds what the visit
  leaves of its old content; the other files hold what they held.
\<close>

lemma first_run_contents:
  assumes visit: "\<And>r fs p r' fs'. ImportRenamer_visit_module (r, fs) p = Inr (r', fs') \<Longrightarrow>
      \<exists>src. contents fs p = Some src
        \<and> contents fs' = (contents fs)(p \<mapsto> left_by_visit r src)
        \<and> import_regex r' = import_regex r \<and> import_repl r' = import_repl r
        \<and> import_from_regex r' = import_from_regex r
        \<and> import_from_repl r' = import_from_repl r"
  shows "visit_all ImportRenamer_visit_module ps (r, fs) = Inr (r1, fs1) \<Longrightarrow> distinct ps \<Longrightarrow>
   (\<forall>q. contents fs1 q =
      (if q \<in> set ps then map_option (left_by_visit r) (contents fs q) else contents fs q))
   \<and> (\<forall>q\<in>set ps. contents fs q \<noteq> None)"
proof (induction ps arbitrary: r fs)
  case Nil
  then show ?case by simp
next
  case (Cons p ps)
  from Cons.prems(1) obtain r' fs'
    where step: "ImportRenamer_visit_module (r, fs) p = Inr (r', fs')"
      and rest: "visit_all ImportRenamer_visit_module ps (r', fs') = Inr (r1, fs1)"
    by (auto split: sum.splits)
  from visit [OF step] obtain src
    where src: "contents fs p = Some src"
      and c: "contents fs' = (contents fs)(p \<mapsto> left_by_visit r src)"
      and f: "import_regex r' = import_regex r" "import_repl r' = import_repl r"
        "import_from_regex r' = import_from_regex r" "import_from_repl r' = import_from_repl r"
    by blast
  from Cons.prems(2) have d: "distinct ps" and np: "p \<notin> set ps" by simp_all
  have lv: "left_by_visit r' = left_by_visit r"
    by (simp add: f cong: if_cong)
  from Cons.IH [OF rest d]
  have ih: "\<forall>q. contents fs1 q =
      (if q \<in> set ps then map_option (left_by_visit r) (contents fs' q) else contents fs' q)"
    and rd: "\<forall>q\<in>set ps. contents fs' q \<noteq> None"
    unfolding lv by blast+
  have "\<forall>q. contents fs1 q =
      (if q \<in> set (p # ps) then map_option (left_by_visit r) (contents fs q) else contents fs q)"
  proof
    fix q
    show "contents fs1 q =
      (if q \<in> set (p # ps) then map_option (left_by_visit r) (contents fs q) else contents fs q)"
    proof (cases "q = p")
      case True
      with ih np c src show ?thesis by simp
    next
      case False
      with ih c show ?thesis by simp
    qed
  qed
  moreover have "\<forall>q\<in>set (p # ps). contents fs q \<noteq> None"
  proof
    fix q assume q: "q \<in> set (p # ps)"
    show "contents fs q \<noteq> None"
    proof (cases "q = p")
      case True
      with src show ?thesis by simp
    next
      case False
      with q rd have "contents fs' q \<noteq> None" by simp
      with False c show ?thesis by simp
    qed
  qed
  ultimately show ?case by blast
qed

text \<open>
  A file that is one plain import of the old name: the keyword, a text \<open>mm\<close> that the
  atoms of the old name match, and the rest \<open>g\<close> of the line.
\<close>

lemma match_atoms_append:
  "match_atoms as mm = Some [] \<Longrightarrow> match_atoms as (mm @ g) = Some g"
  by (induction as mm rule: match_atoms.induct) (auto split: if_splits)

lemma match_atoms_lits_prefix:
  "match_atoms (map Lit k @ as) t = Some rest \<Longrightarrow> take (length k) t = k"
proof (induction k arbitrary: t)
  case Nil
  show ?case by simp
next
  case (Cons c k)
  then show ?case by (cases t) (auto split: if_splits)
qed

lemma match_here_needs_space:
  assumes "match_here r t = Some m"
  shows "CHR '' '' \<in> set t"
proof (cases r)
  case (ImportRe as)
  with assms obtain rest where "match_atoms (map Lit ''import '' @ as) t = Some rest"
    by (auto split: option.splits)
  from match_atoms_lits_prefix [OF this]
  have p: "take (length ''import '') t = ''import ''" .
  have "CHR '' '' \<in> set ''import ''" by simp
  then have "CHR '' '' \<in> set (take (length ''import '') t)" by (simp only: p)
  then show ?thesis by (rule in_set_takeD)
next
  case (ImportFromRe as)
  with assms obtain rest where "match_atoms (map Lit ''from '' @ as) t = Some rest"
    by (auto split: option.splits)
  from match_atoms_lits_prefix [OF this]
  have p: "take (length ''from '') t = ''from ''" .
  have "CHR '' '' \<in> set ''from ''" by simp
  then have "CHR '' '' \<in> set (take (length ''from '') t)" by (simp only: p)
  then show ?thesis by (rule in_set_takeD)
qed

lemma search_needs_space: "search r t \<Longrightarrow> CHR '' '' \<in> set t"
proof (induction t)
  case Nil
  then show ?case by (auto split: option.splits dest: match_here_needs_space)
next
  case (Cons c cs)
  then show ?case by (auto split: option.splits dest: match_here_needs_space)
qed

lemma plain_line_found:
  assumes "match_atoms as mm = Some []" and "nl \<notin> set g"
  shows "match_here (ImportRe as) (''import '' @ mm @ g) = Some (g, [])"
proof -
  have "takeWhile (\<lambda>c. c \<noteq> nl) g = g" "dropWhile (\<lambda>c. c \<noteq> nl) g = []"
    using assms(2) by auto
  with match_atoms_append [OF assms(1), of g] show ?thesis by simp
qed

lemma new_line_clean:
  assumes "CHR '' '' \<notin> set x" and "match_atoms as x = None"
  shows "\<not> search (ImportRe as) (''import '' @ x)"
    and "\<not> search (ImportFromRe as) (''import '' @ x)"
proof -
  have "\<not> search (ImportRe as) x" "\<not> search (ImportFromRe as) x"
    using assms(1) search_needs_space by blast+
  with assms(2) show "\<not> search (ImportRe as) (''import '' @ x)"
    and "\<not> search (ImportFromRe as) (''import '' @ x)"
    by simp_all
qed

lemma ImportRenamer_init_patterns:
  assumes "ImportRenamer_init m new_name = Inr r"
  shows "\<exists>as. compile_name m = Inr as \<and> import_regex r = ImportRe as
      \<and> import_from_regex r = ImportFromRe as
      \<and> import_repl r = ''import '' @ new_name \<and> import_from_repl r = ''from '' @ new_name"
  using assms
  by (auto simp: ImportRenamer_init_def make_import_regexes_def make_repl_def renamer.defs
      walker.defs split: sum.splits if_splits)

text \<open>
  C3, as the code has it. Let a first run over a tree whose visited paths are distinct
  return. Then every visited file holds what the visit leaves of its old content, and
  a second run right after it, with a renamer for the same names, is without effect (no
  substitution, no write, no entry, the files as the first run left them) exactly when
  neither pattern of the old name is found in what the first run left of any visited
  file. In particular the second run is without effect on a tree in which every
  visited file either holds no match of the two patterns or is one plain import of the
  old name (the keyword, a text that the old name's pattern matches, and a rest of the
  line) such that the new name with that rest holds no space and is not matched by the
  old name's pattern. The second run is not without effect on the trees of the
  counterexample.
\<close>

theorem second_run_noop_iff:
  assumes "ImportRenamer_walk env (r, fs) root = Inr (r1, fs1)"
    and "distinct (visited env (globs r) root)"
  shows "(\<forall>p. contents fs1 p =
            (if p \<in> set (visited env (globs r) root)
             then map_option (left_by_visit r) (contents fs p) else contents fs p))
     \<and> (ImportRenamer_walk env (r, fs1) root = Inr (r\<lparr>path := Some root\<rparr>, fs1)) =
         (\<forall>p\<in>set (visited env (globs r) root). \<forall>src. contents fs p = Some src \<longrightarrow>
            \<not> search (import_regex r) (left_by_visit r src)
            \<and> \<not> search (import_from_regex r) (left_by_visit r src))
     \<and> (ImportRenamer_init m new_name = Inr r \<and> compile_name m = Inr as
          \<and> (\<forall>p\<in>set (visited env (globs r) root). \<forall>src. contents fs p = Some src \<longrightarrow>
                (\<not> search (import_regex r) src \<and> \<not> search (import_from_regex r) src)
                \<or> (\<exists>mm g. src = ''import '' @ mm @ g \<and> match_atoms as mm = Some []
                      \<and> nl \<notin> set g \<and> CHR '' '' \<notin> set (new_name @ g)
                      \<and> match_atoms as (new_name @ g) = None))
        \<longrightarrow> ImportRenamer_walk env (r, fs1) root = Inr (r\<lparr>path := Some root\<rparr>, fs1))"
proof -
  let ?V = "visited env (globs r) root"
  from assms(1) have run: "visit_all ImportRenamer_visit_module ?V (r\<lparr>path := Some root\<rparr>, fs)
      = Inr (r1, fs1)"
    by (simp add: ImportRenamer_walk_def walk_visited)
  have lv: "left_by_visit (r\<lparr>path := Some root\<rparr>) = left_by_visit r"
    by (simp cong: if_cong)
  have visit: "\<exists>src. contents fs p = Some src
        \<and> contents fs' = (contents fs)(p \<mapsto> left_by_visit r src)
        \<and> import_regex r' = import_regex r \<and> import_repl r' = import_repl r
        \<and> import_from_regex r' = import_from_regex r
        \<and> import_from_repl r' = import_from_repl r"
    if v: "ImportRenamer_visit_module (r, fs) p = Inr (r', fs')" for r fs p r' fs'
  proof -
    obtain src where src: "contents fs p = Some src"
      using v by (cases "contents fs p") (auto simp: visit_module_defs)
    have "(contents fs)(p \<mapsto> src) = contents fs"
      using src by (rule map_upd_triv)
    with v src show ?thesis
      by (auto simp: visit_module_defs split: if_splits)
  qed
  from first_run_contents [OF visit run assms(2)]
  have c: "\<forall>p. contents fs1 p =
      (if p \<in> set ?V then map_option (left_by_visit r) (contents fs p) else contents fs p)"
    and rd: "\<forall>p\<in>set ?V. contents fs p \<noteq> None"
    unfolding lv by blast+
  have "(\<forall>p\<in>set ?V. \<exists>src. contents fs1 p = Some src \<and> \<not> search (import_regex r) src
          \<and> \<not> search (import_from_regex r) src)
      = (\<forall>p\<in>set ?V. \<forall>src. contents fs p = Some src \<longrightarrow>
            \<not> search (import_regex r) (left_by_visit r src)
            \<and> \<not> search (import_from_regex r) (left_by_visit r src))"
  proof (intro ball_cong refl)
    fix p assume p: "p \<in> set ?V"
    with rd obtain s where s: "contents fs p = Some s" by auto
    with c p have "contents fs1 p = Some (left_by_visit r s)" by simp
    with s show "(\<exists>src. contents fs1 p = Some src \<and> \<not> search (import_regex r) src
          \<and> \<not> search (import_from_regex r) src)
      = (\<forall>src. contents fs p = Some src \<longrightarrow>
            \<not> search (import_regex r) (left_by_visit r src)
            \<and> \<not> search (import_from_regex r) (left_by_visit r src))"
      by simp
  qed
  with walk_noop_iff [of env r fs1 root]
  have iff: "(ImportRenamer_walk env (r, fs1) root = Inr (r\<lparr>path := Some root\<rparr>, fs1)) =
         (\<forall>p\<in>set ?V. \<forall>src. contents fs p = Some src \<longrightarrow>
            \<not> search (import_regex r) (left_by_visit r src)
            \<and> \<not> search (import_from_regex r) (left_by_visit r src))"
    by simp
  have simple: "ImportRenamer_walk env (r, fs1) root = Inr (r\<lparr>path := Some root\<rparr>, fs1)"
    if init: "ImportRenamer_init m new_name = Inr r" and cn: "compile_name m = Inr as"
      and cls: "\<forall>p\<in>set ?V. \<forall>src. contents fs p = Some src \<longrightarrow>
                (\<not> search (import_regex r) src \<and> \<not> search (import_from_regex r) src)
                \<or> (\<exists>mm g. src = ''import '' @ mm @ g \<and> match_atoms as mm = Some []
                      \<and> nl \<notin> set g \<and> CHR '' '' \<notin> set (new_name @ g)
                      \<and> match_atoms as (new_name @ g) = None)"
  proof -
    from ImportRenamer_init_patterns [OF init] cn
    have pat: "import_regex r = ImportRe as" "import_from_regex r = ImportFromRe as"
        "import_repl r = ''import '' @ new_name"
      by auto
    have "\<forall>p\<in>set ?V. \<forall>src. contents fs p = Some src \<longrightarrow>
            \<not> search (import_regex r) (left_by_visit r src)
            \<and> \<not> search (import_from_regex r) (left_by_visit r src)"
    proof (intro ballI allI impI)
      fix p src assume "p \<in> set ?V" and "contents fs p = Some src"
      with cls consider
        (clean) "\<not> search (import_regex r) src" "\<not> search (import_from_regex r) src"
        | (plain) mm g where "src = ''import '' @ mm @ g" "match_atoms as mm = Some []"
            "nl \<notin> set g" "CHR '' '' \<notin> set (new_name @ g)"
            "match_atoms as (new_name @ g) = None"
        by blast
      then show "\<not> search (import_regex r) (left_by_visit r src)
            \<and> \<not> search (import_from_regex r) (left_by_visit r src)"
      proof cases
        case clean
        then show ?thesis by simp
      next
        case plain
        note found = plain_line_found [OF plain(2,3)]
        have "scan (ImportRe as) [] = []"
          by (rule scan_nil) simp
        with scan_match [OF found]
        have "sub (ImportRe as) (''import '' @ new_name) (''import '' @ mm @ g)
            = ''import '' @ new_name @ g"
          by (simp add: sub_def expand_def)
        moreover from found have "search (ImportRe as) (''import '' @ mm @ g)"
          by simp
        ultimately have "left_by_visit r src = ''import '' @ new_name @ g"
          using pat plain(1) by simp
        with new_line_clean [OF plain(4,5)] pat show ?thesis
          by simp
      qed
    qed
    with iff show ?thesis by simp
  qed
  from c iff simple show ?thesis by blast
qed


text \<open>
  A second run that rewrites again. In the first tree the file holds both forms of
  import of \<^verbatim>\<open>foo\<close>: the first run substitutes the plain form only; the second run finds
  the other form and writes the file once more. In the second tree the new name
  \<^verbatim>\<open>foo2\<close> starts with the old one, and the second run finds the old name in the new.
\<close>

theorem rename_twice_counterexample:
  "(case rename_imports (one_dir [''a.py''])
           (files [(''root/a.py'', ''import foo'' @ [nl] @ ''from foo import x'')])
           ''root'' ''foo'' ''qux'' of
      Inl e \<Rightarrow> False
    | Inr (report1, fs1) \<Rightarrow>
        contents fs1 ''root/a.py'' = Some (''import qux'' @ [nl] @ ''from foo import x'')
        \<and> (case rename_imports (one_dir [''a.py'']) fs1 ''root'' ''foo'' ''qux'' of
             Inl e \<Rightarrow> False
           | Inr (report2, fs2) \<Rightarrow>
               report2 = ''root/a.py''
               \<and> contents fs2 ''root/a.py'' = Some (''import qux'' @ [nl] @ ''from qux import x'')
               \<and> written fs2 = [''root/a.py'', ''root/a.py'']))
   \<and> (case rename_imports (one_dir [''a.py'']) (files [(''root/a.py'', ''import foo.bar'')])
           ''root'' ''foo'' ''foo2'' of
      Inl e \<Rightarrow> False
    | Inr (report1, fs1) \<Rightarrow>
        contents fs1 ''root/a.py'' = Some ''import foo2.bar''
        \<and> (case rename_imports (one_dir [''a.py'']) fs1 ''root'' ''foo'' ''foo2'' of
             Inl e \<Rightarrow> False
           | Inr (report2, fs2) \<Rightarrow>
               report2 = ''root/a.py''
               \<and> contents fs2 ''root/a.py'' = Some ''import foo22.bar''
               \<and> written fs2 = [''root/a.py'', ''root/a.py'']))"
  by code_simp

theorem second_run_noop_iff_witness:
  "ImportRenamer_walk (one_dir [''a.py'', ''b.py''])
       (foo_to_qux,
        files [(''root/a.py'', ''import foo.bar''), (''root/b.py'', ''from foo import baz'')])
       ''root''
     = Inr (foo_to_qux\<lparr>path := Some ''root'', output := [''root/a.py'', ''root/b.py'']\<rparr>,
            (files [(''root/a.py'', ''import foo.bar''), (''root/b.py'', ''from foo import baz'')])
              \<lparr>contents := (contents (files [(''root/a.py'', ''import foo.bar''),
                                               (''root/b.py'', ''from foo import baz'')]))
                   (''root/a.py'' \<mapsto> ''import qux.bar'', ''root/b.py'' \<mapsto> ''from qux import baz''),
               written := [''root/a.py'', ''root/b.py'']\<rparr>)
   \<and> distinct (visited (one_dir [''a.py'', ''b.py'']) (globs foo_to_qux) ''root'')
   \<and> ImportRenamer_walk (one_dir [''a.py'', ''b.py''])
       (foo_to_qux,
        (files [(''root/a.py'', ''import foo.bar''), (''root/b.py'', ''from foo import baz'')])
          \<lparr>contents := (contents (files [(''root/a.py'', ''import foo.bar''),
                                           (''root/b.py'', ''from foo import baz'')]))
               (''root/a.py'' \<mapsto> ''import qux.bar'', ''root/b.py'' \<mapsto> ''from qux import baz''),
           written := [''root/a.py'', ''root/b.py'']\<rparr>)
       ''root''
     = Inr (foo_to_qux\<lparr>path := Some ''root''\<rparr>,
            (files [(''root/a.py'', ''import foo.bar''), (''root/b.py'', ''from foo import baz'')])
              \<lparr>contents := (contents (files [(''root/a.py'', ''import foo.bar''),
                                               (''root/b.py'', ''from foo import baz'')]))
                   (''root/a.py'' \<mapsto> ''import qux.bar'', ''root/b.py'' \<mapsto> ''from qux import baz''),
               written := [''root/a.py'', ''root/b.py'']\<rparr>)
   \<and> ImportRenamer_init ''foo'' ''qux'' = Inr foo_to_qux
   \<and> compile_name ''foo'' = Inr [Lit CHR ''f'', Lit CHR ''o'', Lit CHR ''o'']
   \<and> ImportRenamer_walk (one_dir [''a.py'', ''c.py''])
       (foo_to_qux, files [(''root/a.py'', ''import foo.bar''), (''root/c.py'', ''import os'')])
       ''root''
     = Inr (foo_to_qux\<lparr>path := Some ''root'', output := [''root/a.py'']\<rparr>,
            (files [(''root/a.py'', ''import foo.bar''), (''root/c.py'', ''import os'')])
              \<lparr>contents := (contents (files [(''root/a.py'', ''import foo.bar''),
                                               (''root/c.py'', ''import os'')]))
                   (''root/a.py'' \<mapsto> ''import qux.bar''),
               written := [''root/a.py'']\<rparr>)
   \<and> distinct (visited (one_dir [''a.py'', ''c.py'']) (globs foo_to_qux) ''root'')
   \<and> ImportRenamer_walk (one_dir [''a.py'', ''c.py''])
       (foo_to_qux,
        (files [(''root/a.py'', ''import foo.bar''), (''root/c.py'', ''import os'')])
          \<lparr>contents := (contents (files [(''root/a.py'', ''import foo.bar''),
                                           (''root/c.py'', ''import os'')]))
               (''root/a.py'' \<mapsto> ''import qux.bar''),
           written := [''root/a.py'']\<rparr>)
       ''root''
     = Inr (foo_to_qux\<lparr>path := Some ''root''\<rparr>,
            (files [(''root/a.py'', ''import foo.bar''), (''root/c.py'', ''import os'')])
              \<lparr>contents := (contents (files [(''root/a.py'', ''import foo.bar''),
                                               (''root/c.py'', ''import os'')]))
                   (''root/a.py'' \<mapsto> ''import qux.bar''),
               written := [''root/a.py'']\<rparr>)"
proof -
  let ?E = "one_dir [''a.py'', ''b.py'']"
  let ?F = "files [(''root/a.py'', ''import foo.bar''), (''root/b.py'', ''from foo import baz'')]"
  let ?F1 = "?F\<lparr>contents := (contents ?F)
               (''root/a.py'' \<mapsto> ''import qux.bar'', ''root/b.py'' \<mapsto> ''from qux import baz''),
             written := [''root/a.py'', ''root/b.py'']\<rparr>"
  let ?R1 = "foo_to_qux\<lparr>path := Some ''root'', output := [''root/a.py'', ''root/b.py'']\<rparr>"
  let ?r = "foo_to_qux\<lparr>path := Some ''root''\<rparr>"
  let ?as = "[Lit CHR ''f'', Lit CHR ''o'', Lit CHR ''o'']"
  have v: "visited ?E (globs foo_to_qux) ''root'' = [''root/a.py'', ''root/b.py'']"
    by code_simp
  have fld: "import_regex ?r = import_regex foo_to_qux" "import_repl ?r = import_repl foo_to_qux"
      "import_from_regex ?r = import_from_regex foo_to_qux"
      "import_from_repl ?r = import_from_repl foo_to_qux" "output foo_to_qux = []"
    by (simp_all add: foo_to_qux_def)
  have a: "search (import_regex foo_to_qux) ''import foo.bar''"
      "meets_pep8 ''import foo.bar'' (import_regex foo_to_qux) (import_repl foo_to_qux) = Some True"
      "sub (import_regex foo_to_qux) (import_repl foo_to_qux) ''import foo.bar'' = ''import qux.bar''"
      "\<not> search (import_regex foo_to_qux) ''import qux.bar''"
      "\<not> search (import_from_regex foo_to_qux) ''import qux.bar''"
    by code_simp+
  have b: "\<not> search (import_regex foo_to_qux) ''from foo import baz''"
      "search (import_from_regex foo_to_qux) ''from foo import baz''"
      "meets_pep8 ''from foo import baz'' (import_from_regex foo_to_qux)
         (import_from_repl foo_to_qux) = Some True"
      "sub (import_from_regex foo_to_qux) (import_from_repl foo_to_qux) ''from foo import baz''
         = ''from qux import baz''"
      "\<not> search (import_regex foo_to_qux) ''from qux import baz''"
      "\<not> search (import_from_regex foo_to_qux) ''from qux import baz''"
    by code_simp+
  have ca: "contents ?F ''root/a.py'' = Some ''import foo.bar''"
    and cb: "contents ?F ''root/b.py'' = Some ''from foo import baz''"
    and w: "unwritable ?F = {}" "written ?F = []"
    by (simp_all add: files_def)
  let ?Fa = "?F\<lparr>contents := (contents ?F)(''root/a.py'' \<mapsto> ''import qux.bar''),
                written := [''root/a.py'']\<rparr>"
  have cb': "contents ?Fa ''root/b.py'' = Some ''from foo import baz''"
    using cb by simp
  have s1: "ImportRenamer_visit_module (?r, ?F) ''root/a.py''
      = Inr (?r\<lparr>output := [''root/a.py'']\<rparr>, ?Fa)"
    using a w fld ca by (simp add: visit_module_defs del: search.simps)
  have s2: "ImportRenamer_visit_module (?r\<lparr>output := [''root/a.py'']\<rparr>, ?Fa) ''root/b.py''
      = Inr (?R1, ?F1)"
    using b w fld cb' by (simp add: visit_module_defs del: search.simps)
  have h1: "ImportRenamer_walk ?E (foo_to_qux, ?F) ''root'' = Inr (?R1, ?F1)"
    using s1 s2 by (simp add: ImportRenamer_walk_def walk_visited v)
  have h2: "distinct (visited ?E (globs foo_to_qux) ''root'')"
    by (simp add: v)
  have st: "\<forall>p\<in>set (visited ?E (globs foo_to_qux) ''root''). \<forall>src. contents ?F p = Some src \<longrightarrow>
            \<not> search (import_regex foo_to_qux) (left_by_visit foo_to_qux src)
            \<and> \<not> search (import_from_regex foo_to_qux) (left_by_visit foo_to_qux src)"
    using a b ca cb by (simp add: v)
  from second_run_noop_iff [OF h1 h2, THEN conjunct2, THEN conjunct1] st
  have r1: "ImportRenamer_walk ?E (foo_to_qux, ?F1) ''root'' = Inr (?r, ?F1)"
    by blast
  let ?D = "one_dir [''a.py'', ''c.py'']"
  let ?G = "files [(''root/a.py'', ''import foo.bar''), (''root/c.py'', ''import os'')]"
  let ?G1 = "?G\<lparr>contents := (contents ?G)(''root/a.py'' \<mapsto> ''import qux.bar''),
                written := [''root/a.py'']\<rparr>"
  let ?S1 = "foo_to_qux\<lparr>path := Some ''root'', output := [''root/a.py'']\<rparr>"
  have vd: "visited ?D (globs foo_to_qux) ''root'' = [''root/a.py'', ''root/c.py'']"
    by code_simp
  have o: "\<not> search (import_regex foo_to_qux) ''import os''"
      "\<not> search (import_from_regex foo_to_qux) ''import os''"
    by code_simp+
  have ga: "contents ?G ''root/a.py'' = Some ''import foo.bar''"
    and gc: "contents ?G ''root/c.py'' = Some ''import os''"
    and gw: "unwritable ?G = {}" "written ?G = []"
    by (simp_all add: files_def)
  have gc': "contents ?G1 ''root/c.py'' = Some ''import os''"
    using gc by simp
  have t1: "ImportRenamer_visit_module (?r, ?G) ''root/a.py'' = Inr (?S1, ?G1)"
    using a gw fld ga by (simp add: visit_module_defs del: search.simps)
  have t2: "ImportRenamer_visit_module (?S1, ?G1) ''root/c.py'' = Inr (?S1, ?G1)"
    using o fld gc' by (simp add: visit_module_defs del: search.simps)
  have k1: "ImportRenamer_walk ?D (foo_to_qux, ?G) ''root'' = Inr (?S1, ?G1)"
    using t1 t2 by (simp add: ImportRenamer_walk_def walk_visited vd)
  have k2: "distinct (visited ?D (globs foo_to_qux) ''root'')"
    by (simp add: vd)
  have init: "ImportRenamer_init ''foo'' ''qux'' = Inr foo_to_qux"
    by code_simp
  have cn: "compile_name ''foo'' = Inr ?as"
    by code_simp
  have shape: "\<exists>mm g. ''import foo.bar'' = ''import '' @ mm @ g \<and> match_atoms ?as mm = Some []
      \<and> nl \<notin> set g \<and> CHR '' '' \<notin> set (''qux'' @ g) \<and> match_atoms ?as (''qux'' @ g) = None"
    by (rule exI [of _ "''foo''"], rule exI [of _ "''.bar''"]) simp
  have cls: "\<forall>p\<in>set (visited ?D (globs foo_to_qux) ''root''). \<forall>src. contents ?G p = Some src \<longrightarrow>
      (\<not> search (import_regex foo_to_qux) src \<and> \<not> search (import_from_regex foo_to_qux) src)
      \<or> (\<exists>mm g. src = ''import '' @ mm @ g \<and> match_atoms ?as mm = Some []
            \<and> nl \<notin> set g \<and> CHR '' '' \<notin> set (''qux'' @ g)
            \<and> match_atoms ?as (''qux'' @ g) = None)"
    using shape o ga gc by (simp add: vd)
  from second_run_noop_iff [OF k1 k2, of "''foo''" "''qux''" ?as,
      THEN conjunct2, THEN conjunct2] init cn cls
  have r2: "ImportRenamer_walk ?D (foo_to_qux, ?G1) ''root'' = Inr (?r, ?G1)"
    by blast
  from h1 h2 r1 init cn k1 k2 r2 show ?thesis by simp
qed

section \<open>The structural finder\<close>

lemma imports_module_returns:
  "(\<exists>b. imports_module env fs q m = Inr b) =
   (\<exists>src tree. contents fs q = Some src \<and> ast_parse env src = Inr tree)"
  by (auto simp: imports_module_def read_file_def split: option.splits sum.splits)

lemma finder_visit_all_ok:
  "\<forall>q\<in>set ps. \<exists>b. imports_module env fs q (module_name w) = Inr b \<Longrightarrow>
   visit_all (ImportFinderAST_visit_module env fs) ps w =
     Inr (w\<lparr>found_modules := found_modules w \<union>
            set (filter (\<lambda>q. imports_module env fs q (module_name w) = Inr True) ps)\<rparr>)"
proof (induction ps arbitrary: w)
  case Nil
  show ?case by simp
next
  case (Cons p ps)
  from Cons.prems obtain b where b: "imports_module env fs p (module_name w) = Inr b"
    by auto
  let ?w1 = "if b then w\<lparr>found_modules := insert p (found_modules w)\<rparr> else w"
  have step: "ImportFinderAST_visit_module env fs w p = Inr ?w1"
    using b by (simp add: ImportFinderAST_visit_module_def)
  have m: "module_name ?w1 = module_name w" by simp
  have "\<forall>q\<in>set ps. \<exists>b. imports_module env fs q (module_name ?w1) = Inr b"
    using Cons.prems m by simp
  from Cons.IH [OF this] step b show ?case
    by (cases b) (simp_all add: m)
qed

lemma finder_visit_all_fail:
  assumes "\<forall>q\<in>set before. \<exists>b. imports_module env fs q (module_name w) = Inr b"
    and "imports_module env fs p (module_name w) = Inl e"
  shows "visit_all (ImportFinderAST_visit_module env fs) (before @ p # after) w = Inl e"
  using assms(2)
  by (simp add: visit_all_append finder_visit_all_ok [OF assms(1)]
      ImportFinderAST_visit_module_def)

lemma finder_walk_fail:
  assumes "visited env (globs w) root = before @ p # after"
    and "\<forall>q\<in>set before. \<exists>src tree. contents fs q = Some src \<and> ast_parse env src = Inr tree"
    and "imports_module env fs p (module_name w) = Inl e"
  shows "ImportFinderAST_walk env fs w root = Inl e"
proof -
  from assms(2) have "\<forall>q\<in>set before.
      \<exists>b. imports_module env fs q (module_name (w\<lparr>path := Some root\<rparr>)) = Inr b"
    by (simp add: imports_module_returns)
  moreover from assms(3)
  have "imports_module env fs p (module_name (w\<lparr>path := Some root\<rparr>)) = Inl e"
    by simp
  ultimately show ?thesis
    using assms(1) by (simp add: ImportFinderAST_walk_def walk_visited finder_visit_all_fail)
qed

lemma finder_walk_ok:
  assumes "\<forall>q\<in>set (visited env (globs w) root).
      \<exists>src tree. contents fs q = Some src \<and> ast_parse env src = Inr tree"
  shows "ImportFinderAST_walk env fs w root =
          Inr (w\<lparr>path := Some root,
                 found_modules := found_modules w \<union>
                   set (filter (\<lambda>q. imports_module env fs q (module_name w) = Inr True)
                          (visited env (globs w) root))\<rparr>)"
proof -
  from assms have "\<forall>q\<in>set (visited env (globs w) root).
         \<exists>b. imports_module env fs q (module_name (w\<lparr>path := Some root\<rparr>)) = Inr b"
    by (simp add: imports_module_returns)
  from finder_visit_all_ok [OF this] show ?thesis
    by (simp add: ImportFinderAST_walk_def walk_visited)
qed

text \<open>
  C2, as the code has it. Nothing catches an exception. When a visited file cannot be
  read, or is read and not parsed, and the files visited before it were read and
  parsed, the walk of the structural finder ends with that exception (\<^verbatim>\<open>IOError\<close>, or the
  parser's): no later file is visited and no result is left to print. The walk returns
  exactly when every visited file is read and parsed, and then the result set has
  gained exactly the visited files that the checker accepts.
\<close>

theorem parse_failure_ends_walk:
  "(visited env (globs w) root = before @ p # after
      \<and> (\<forall>q\<in>set before. \<exists>src tree. contents fs q = Some src \<and> ast_parse env src = Inr tree)
      \<and> contents fs p = Some src \<and> ast_parse env src = Inl e
    \<longrightarrow> ImportFinderAST_walk env fs w root = Inl e)
   \<and> (visited env (globs w) root = before @ p # after
      \<and> (\<forall>q\<in>set before. \<exists>src tree. contents fs q = Some src \<and> ast_parse env src = Inr tree)
      \<and> contents fs p = None
    \<longrightarrow> ImportFinderAST_walk env fs w root = Inl IOError)
   \<and> (\<exists>w'. ImportFinderAST_walk env fs w root = Inr w') =
       (\<forall>q\<in>set (visited env (globs w) root).
          \<exists>src tree. contents fs q = Some src \<and> ast_parse env src = Inr tree)
   \<and> ((\<forall>q\<in>set (visited env (globs w) root).
         \<exists>src tree. contents fs q = Some src \<and> ast_parse env src = Inr tree)
    \<longrightarrow> ImportFinderAST_walk env fs w root =
          Inr (w\<lparr>path := Some root,
                 found_modules := found_modules w \<union>
                   set (filter (\<lambda>q. imports_module env fs q (module_name w) = Inr True)
                          (visited env (globs w) root))\<rparr>))"
proof (intro conjI impI)
  assume a: "visited env (globs w) root = before @ p # after
      \<and> (\<forall>q\<in>set before. \<exists>src tree. contents fs q = Some src \<and> ast_parse env src = Inr tree)
      \<and> contents fs p = Some src \<and> ast_parse env src = Inl e"
  then have "imports_module env fs p (module_name w) = Inl e"
    by (simp add: imports_module_def read_file_def)
  with a show "ImportFinderAST_walk env fs w root = Inl e"
    by (intro finder_walk_fail) auto
next
  assume a: "visited env (globs w) root = before @ p # after
      \<and> (\<forall>q\<in>set before. \<exists>src tree. contents fs q = Some src \<and> ast_parse env src = Inr tree)
      \<and> contents fs p = None"
  then have "imports_module env fs p (module_name w) = Inl IOError"
    by (simp add: imports_module_def read_file_def)
  with a show "ImportFinderAST_walk env fs w root = Inl IOError"
    by (intro finder_walk_fail) auto
next
  let ?ok = "\<lambda>q. \<exists>src tree. contents fs q = Some src \<and> ast_parse env src = Inr tree"
  show "(\<exists>w'. ImportFinderAST_walk env fs w root = Inr w') =
       (\<forall>q\<in>set (visited env (globs w) root). ?ok q)"
  proof
    assume r: "\<exists>w'. ImportFinderAST_walk env fs w root = Inr w'"
    show "\<forall>q\<in>set (visited env (globs w) root). ?ok q"
    proof (rule ccontr)
      assume "\<not> (\<forall>q\<in>set (visited env (globs w) root). ?ok q)"
      then have "\<exists>q\<in>set (visited env (globs w) root). \<not> ?ok q" by blast
      from split_list_first_prop [OF this] obtain before p after
        where v: "visited env (globs w) root = before @ p # after"
          and bad: "\<not> ?ok p" and good: "\<forall>q\<in>set before. ?ok q"
        by blast
      from bad have "\<not> (\<exists>b. imports_module env fs p (module_name w) = Inr b)"
        by (simp only: imports_module_returns not_False_eq_True)
      then obtain e where "imports_module env fs p (module_name w) = Inl e"
        by (cases "imports_module env fs p (module_name w)") auto
      from finder_walk_fail [OF v good this] r show False by simp
    qed
  next
    assume "\<forall>q\<in>set (visited env (globs w) root). ?ok q"
    from finder_walk_ok [OF this] show "\<exists>w'. ImportFinderAST_walk env fs w root = Inr w'"
      by blast
  qed
next
  assume "\<forall>q\<in>set (visited env (globs w) root).
         \<exists>src tree. contents fs q = Some src \<and> ast_parse env src = Inr tree"
  then show "ImportFinderAST_walk env fs w root =
          Inr (w\<lparr>path := Some root,
                 found_modules := found_modules w \<union>
                   set (filter (\<lambda>q. imports_module env fs q (module_name w) = Inr True)
                          (visited env (globs w) root))\<rparr>)"
    by (rule finder_walk_ok)
qed

text \<open>
  A tree of three files of which the second is not valid Python: the structural finder
  prints nothing and ends with the parser's exception, where the claim has it print the
  two files that parse.
\<close>

theorem parse_failure_counterexample:
  "find_imports_ast (one_dir [''a.py'', ''b.py'', ''c.py''])
     (files [(''root/a.py'', ''import foo.bar''), (''root/b.py'', ''import foo (''),
             (''root/c.py'', ''from foo import baz'')])
     ''root'' ''foo'' = Inl SyntaxError
   \<and> find_imports_ast (one_dir [''a.py'', ''c.py''])
     (files [(''root/a.py'', ''import foo.bar''), (''root/b.py'', ''import foo (''),
             (''root/c.py'', ''from foo import baz'')])
     ''root'' ''foo'' = Inr (''a.py'' @ [nl] @ ''c.py'')"
  by code_simp

theorem parse_failure_ends_walk_witness:
  "visited (one_dir [''a.py'', ''b.py'', ''c.py'']) (globs (CollectingImportWalker_init ''foo'')) ''root''
     = [''root/a.py''] @ ''root/b.py'' # [''root/c.py'']
   \<and> contents (files [(''root/a.py'', ''import foo.bar''), (''root/b.py'', ''import foo (''),
             (''root/c.py'', ''from foo import baz'')]) ''root/b.py'' = Some ''import foo (''
   \<and> ast_parse (one_dir [''a.py'', ''b.py'', ''c.py'']) ''import foo ('' = Inl SyntaxError
   \<and> ImportFinderAST_walk (one_dir [''a.py'', ''b.py'', ''c.py''])
       (files [(''root/a.py'', ''import foo.bar''), (''root/b.py'', ''import foo (''),
             (''root/c.py'', ''from foo import baz'')])
       (CollectingImportWalker_init ''foo'') ''root'' = Inl SyntaxError
   \<and> visited (one_dir [''a.py'', ''d.py'', ''c.py'']) (globs (CollectingImportWalker_init ''foo'')) ''root''
     = [''root/a.py''] @ ''root/d.py'' # [''root/c.py'']
   \<and> contents (files [(''root/a.py'', ''import foo.bar''), (''root/b.py'', ''import foo (''),
             (''root/c.py'', ''from foo import baz'')]) ''root/d.py'' = None
   \<and> ImportFinderAST_walk (one_dir [''a.py'', ''d.py'', ''c.py''])
       (files [(''root/a.py'', ''import foo.bar''), (''root/b.py'', ''import foo (''),
             (''root/c.py'', ''from foo import baz'')])
       (CollectingImportWalker_init ''foo'') ''root'' = Inl IOError
   \<and> ImportFinderAST_walk (one_dir [''a.py'', ''c.py''])
       (files [(''root/a.py'', ''import foo.bar''), (''root/b.py'', ''import foo (''),
             (''root/c.py'', ''from foo import baz'')])
       (CollectingImportWalker_init ''foo'') ''root''
     = Inr ((CollectingImportWalker_init ''foo'')
              \<lparr>path := Some ''root'', found_modules := {''root/a.py'', ''root/c.py''}\<rparr>)"
proof -
  let ?E3 = "one_dir [''a.py'', ''b.py'', ''c.py'']"
  let ?Ed = "one_dir [''a.py'', ''d.py'', ''c.py'']"
  let ?E2 = "one_dir [''a.py'', ''c.py'']"
  let ?F = "files [(''root/a.py'', ''import foo.bar''), (''root/b.py'', ''import foo (''),
             (''root/c.py'', ''from foo import baz'')]"
  let ?w = "CollectingImportWalker_init ''foo''"
  have v3: "visited ?E3 (globs ?w) ''root'' = [''root/a.py''] @ ''root/b.py'' # [''root/c.py'']"
    by code_simp
  have vd: "visited ?Ed (globs ?w) ''root'' = [''root/a.py''] @ ''root/d.py'' # [''root/c.py'']"
    by code_simp
  have v2: "visited ?E2 (globs ?w) ''root'' = [''root/a.py'', ''root/c.py'']"
    by code_simp
  have m: "module_name ?w = ''foo''" "found_modules ?w = {}"
    by (simp_all add: CollectingImportWalker_init_def BaseImportWalker_init_def
        walker.defs collecting_walker.defs)
  have c: "contents ?F ''root/a.py'' = Some ''import foo.bar''"
      "contents ?F ''root/b.py'' = Some ''import foo (''"
      "contents ?F ''root/c.py'' = Some ''from foo import baz''"
      "contents ?F ''root/d.py'' = None"
    by (simp_all add: files_def)
  have p3: "ast_parse ?E3 ''import foo.bar'' = Inr (Other [Import [Alias ''foo.bar'' None]])"
      "ast_parse ?E3 ''import foo ('' = Inl SyntaxError"
    by code_simp+
  have pd: "ast_parse ?Ed ''import foo.bar'' = Inr (Other [Import [Alias ''foo.bar'' None]])"
    by code_simp
  have p2: "ast_parse ?E2 ''import foo.bar'' = Inr (Other [Import [Alias ''foo.bar'' None]])"
      "ast_parse ?E2 ''from foo import baz''
         = Inr (Other [ImportFrom (Some ''foo'') [Alias ''baz'' None] 0])"
    by code_simp+
  have a2: "imports_module ?E2 ?F ''root/a.py'' ''foo'' = Inr True" by code_simp
  have c2: "imports_module ?E2 ?F ''root/c.py'' ''foo'' = Inr True" by code_simp
  note t = parse_failure_ends_walk [of ?E3 ?w "''root''" "[''root/a.py'']" "''root/b.py''"
      "[''root/c.py'']" ?F "''import foo (''" SyntaxError]
  note td = parse_failure_ends_walk [of ?Ed ?w "''root''" "[''root/a.py'']" "''root/d.py''"
      "[''root/c.py'']" ?F "[]" SyntaxError]
  note t2 = parse_failure_ends_walk [of ?E2 ?w "''root''" "[]" "[]" "[]" ?F "[]" SyntaxError]
  have r3: "ImportFinderAST_walk ?E3 ?F ?w ''root'' = Inl SyntaxError"
    using t [THEN conjunct1] v3 c p3 by simp
  have rd: "ImportFinderAST_walk ?Ed ?F ?w ''root'' = Inl IOError"
    using td [THEN conjunct2, THEN conjunct1] vd c pd by simp
  have r2: "ImportFinderAST_walk ?E2 ?F ?w ''root'' =
      Inr (?w\<lparr>path := Some ''root'', found_modules := {''root/a.py'', ''root/c.py''}\<rparr>)"
    using t2 [THEN conjunct2, THEN conjunct2, THEN conjunct2] a2 c2 c p2 by (simp add: m v2)
  from v3 vd c p3 r3 rd r2 show ?thesis by simp
qed

section \<open>The rendering of the finders\<close>

lemma visit_all_path:
  assumes "\<And>w p w'. f w p = Inr w' \<Longrightarrow> path w' = path w"
  shows "visit_all f ps w = Inr w' \<Longrightarrow> path w' = path w"
proof (induction ps arbitrary: w)
  case Nil
  then show ?case by simp
next
  case (Cons p ps)
  then obtain w1 where "f w p = Inr w1" "visit_all f ps w1 = Inr w'"
    by (auto split: sum.splits)
  with Cons.IH assms show ?case by metis
qed

text \<open>A walk that returns leaves the walked root in \<^verbatim>\<open>self.path\<close>.\<close>

lemma ImportFinderAST_walk_path:
  assumes "ImportFinderAST_walk env fs w root = Inr w'"
  shows "path w' = Some root"
proof -
  have "\<And>w p w'. ImportFinderAST_visit_module env fs w p = Inr w' \<Longrightarrow> path w' = path w"
    by (auto simp: ImportFinderAST_visit_module_def split: sum.splits if_splits)
  from visit_all_path [of "ImportFinderAST_visit_module env fs", OF this] assms
  show ?thesis
    by (fastforce simp: ImportFinderAST_walk_def walk_visited)
qed

lemma ImportFinderRE_walk_path:
  assumes "ImportFinderRE_walk env fs w root = Inr w'"
  shows "path w' = Some root"
proof -
  have "\<And>w p w'. ImportFinderRE_visit_module fs w p = Inr w' \<Longrightarrow> path w' = path w"
    by (auto simp: ImportFinderRE_visit_module_def split: sum.splits if_splits)
  from visit_all_path [of "ImportFinderRE_visit_module fs", OF this] assms
  show ?thesis
    by (fastforce simp: ImportFinderRE_walk_def walk_visited)
qed

text \<open>
  C7. After a walk of root \<open>root\<close>, whatever the order in which the set of found paths
  is enumerated, the string of the finder is the same: the lines are the found paths
  made relative to the root, each once, in sorted order, joined by newlines.
\<close>

theorem rendering_sorted:
  assumes "path w = Some root"
    and "set xs = found_modules w" and "distinct xs"
    and "set ys = found_modules w" and "distinct ys"
  shows "\<exists>ls. CollectingImportWalker_str env w xs = Inr (str_join [nl] ls)
      \<and> sorted ls
      \<and> mset ls = image_mset (\<lambda>module_path. relpath env module_path root)
                     (mset_set (found_modules w))
      \<and> CollectingImportWalker_str env w ys = CollectingImportWalker_str env w xs"
proof -
  let ?rel = "\<lambda>module_path. relpath env module_path root"
  have xs: "mset xs = mset_set (found_modules w)"
    using assms(2,3) by (metis mset_set_set)
  have ys: "mset ys = mset_set (found_modules w)"
    using assms(4,5) by (metis mset_set_set)
  have "mset (map ?rel ys) = mset (sort (map ?rel xs))"
    using xs ys by simp
  then have same: "sort (map ?rel ys) = sort (map ?rel xs)"
    by (intro properties_for_sort) simp_all
  have "CollectingImportWalker_str env w xs = Inr (str_join [nl] (sort (map ?rel xs)))"
    using assms(1) by (simp add: CollectingImportWalker_str_def)
  moreover have "sorted (sort (map ?rel xs))" by simp
  moreover have "mset (sort (map ?rel xs)) = image_mset ?rel (mset_set (found_modules w))"
    using xs by simp
  moreover have "CollectingImportWalker_str env w ys = CollectingImportWalker_str env w xs"
    using assms(1) same by (simp add: CollectingImportWalker_str_def)
  ultimately show ?thesis by blast
qed

theorem rendering_sorted_witness:
  "path ((CollectingImportWalker_init ''foo'')
          \<lparr>path := Some ''root'', found_modules := {''root/b.py'', ''root/a.py''}\<rparr>) = Some ''root''
   \<and> distinct [''root/b.py'', ''root/a.py''] \<and> distinct [''root/a.py'', ''root/b.py'']
   \<and> CollectingImportWalker_str (one_dir [])
        ((CollectingImportWalker_init ''foo'')
          \<lparr>path := Some ''root'', found_modules := {''root/b.py'', ''root/a.py''}\<rparr>)
        [''root/b.py'', ''root/a.py'']
      = Inr (''a.py'' @ [nl] @ ''b.py'')
   \<and> CollectingImportWalker_str (one_dir [])
        ((CollectingImportWalker_init ''foo'')
          \<lparr>path := Some ''root'', found_modules := {''root/b.py'', ''root/a.py''}\<rparr>)
        [''root/a.py'', ''root/b.py'']
      = Inr (''a.py'' @ [nl] @ ''b.py'')"
proof -
  let ?w = "(CollectingImportWalker_init ''foo'')
          \<lparr>path := Some ''root'', found_modules := {''root/b.py'', ''root/a.py''}\<rparr>"
  have p: "path ?w = Some ''root''" by simp
  have f: "found_modules ?w = {''root/b.py'', ''root/a.py''}" by simp
  have x: "set [''root/b.py'', ''root/a.py''] = found_modules ?w" by (simp add: f)
  have y: "set [''root/a.py'', ''root/b.py''] = found_modules ?w" by (auto simp: f)
  have dx: "distinct [''root/b.py'', ''root/a.py'']" by simp
  have dy: "distinct [''root/a.py'', ''root/b.py'']" by simp
  have v: "CollectingImportWalker_str (one_dir []) ?w [''root/b.py'', ''root/a.py'']
      = Inr (''a.py'' @ [nl] @ ''b.py'')"
    by code_simp
  from rendering_sorted [OF p x dx y dy, of "one_dir []"]
  have "CollectingImportWalker_str (one_dir []) ?w [''root/a.py'', ''root/b.py'']
      = CollectingImportWalker_str (one_dir []) ?w [''root/b.py'', ''root/a.py'']"
    by blast
  with v p dx dy show ?thesis by simp
qed

section \<open>The checker on single statements\<close>

text \<open>
  C10. \<^verbatim>\<open>visit_ImportFrom\<close> leaves the visitor as it is when the node has no module, at
  any level. A node with a module is checked as an absolute import of that module
  whatever its level: the level does not enter the result, and the node is found for
  its own module name. So a file whose tree is the single statement
  \<^verbatim>\<open>from .sub import x\<close> (module \<^verbatim>\<open>sub\<close>, level 1), or any single from-import whose module
  starts with the name asked for, is reported by \<^verbatim>\<open>imports_module\<close>.
\<close>

theorem relative_level_ignored:
  "visit m (ImportFrom None names level) found = found
   \<and> visit m (ImportFrom (Some md) names level) found
       = visit m (ImportFrom (Some md) names 0) found
   \<and> visit md (ImportFrom (Some md) names level) False = True
   \<and> (contents fs p = Some src
        \<and> ast_parse env src = Inr (Other [ImportFrom (Some md) names level])
        \<and> startswith md m
      \<longrightarrow> imports_module env fs p m = Inr True)"
  by (simp add: imports_module_def read_file_def startswith_def)

theorem relative_level_ignored_witness:
  "contents (files [(''root/a.py'', ''from .sub import x'')]) ''root/a.py'' = Some ''from .sub import x''
   \<and> ast_parse (one_dir [''a.py'']) ''from .sub import x''
       = Inr (Other [ImportFrom (Some ''sub'') [Alias ''x'' None] 1])
   \<and> startswith ''sub'' ''sub''
   \<and> imports_module (one_dir [''a.py'']) (files [(''root/a.py'', ''from .sub import x'')])
        ''root/a.py'' ''sub'' = Inr True"
proof -
  have c: "contents (files [(''root/a.py'', ''from .sub import x'')]) ''root/a.py''
      = Some ''from .sub import x''"
    by (simp add: files_def)
  have a: "ast_parse (one_dir [''a.py'']) ''from .sub import x''
       = Inr (Other [ImportFrom (Some ''sub'') [Alias ''x'' None] 1])"
    by code_simp
  have s: "startswith ''sub'' ''sub''" by (simp add: startswith_def)
  from relative_level_ignored [of "''sub''" "[Alias ''x'' None]" 1 False "''sub''"
      "files [(''root/a.py'', ''from .sub import x'')]" "''root/a.py''" "''from .sub import x''"
      "one_dir [''a.py'']"] c a s
  show ?thesis by simp
qed

text \<open>
  C1 at the file that holds \<^verbatim>\<open>import Mother\<close> alone, asked for the module \<^verbatim>\<open>M\<close>: the
  structural checker answers that the file imports \<^verbatim>\<open>M\<close>, the plain-import pattern built
  for \<^verbatim>\<open>M\<close> is found in the source, and both finders print the file.
\<close>

theorem import_Mother_reported:
  "imports_module (one_dir [''m.py'']) (files [(''root/m.py'', ''import Mother'')])
     ''root/m.py'' ''M'' = Inr True
   \<and> map_sum id (\<lambda>(r, rf). search r ''import Mother'') (make_import_regexes ''M'') = Inr True
   \<and> find_imports_ast (one_dir [''m.py'']) (files [(''root/m.py'', ''import Mother'')])
        ''root'' ''M'' = Inr ''m.py''
   \<and> find_imports (one_dir [''m.py'']) (files [(''root/m.py'', ''import Mother'')])
        ''root'' ''M'' = Inr ''m.py''"
  by code_simp

text \<open>
  C4 at a file whose one line is an import indented by four spaces: the rewritten line
  has 80 characters, the expansion that \<^verbatim>\<open>_meets_pep8\<close> measures starts at the keyword and
  has 76, and the entry of the file is its path without the tag.
\<close>

theorem indented_line_not_tagged:
  "map_sum id (\<lambda>(report, fs'). (report, contents fs' ''root/a.py''))
     (rename_imports (one_dir [''a.py''])
        (files [(''root/a.py'', ''    import foo.'' @ replicate 65 CHR ''x'')])
        ''root'' ''foo'' ''qux'')
   = Inr (''root/a.py'', Some (''    import qux.'' @ replicate 65 CHR ''x''))
   \<and> length (''    import qux.'' @ replicate 65 CHR ''x'') = 80
   \<and> map (\<lambda>g. length (expand (import_repl foo_to_qux) g))
       (finditer (import_regex foo_to_qux) (''    import foo.'' @ replicate 65 CHR ''x'')) = [76]"
  unfolding map_sum_Inr_any [of id] by code_simp

end
